theory Spec2Isabelle
  imports Complex_Main "HOL-Library.Multiset" "HOL-Library.Log_Nat"
begin

section \<open>The command history of \<open>src/utils/commands.ts\<close>\<close>

text \<open>
  \<open>CommandHistory\<close> keeps an array of commands and an index into it.  The entry type is
  left open here; the canvas commands are supplied further down.  The private field
  \<open>maxHistorySize\<close> is initialised to 100 and never assigned again.
\<close>

record 'c CommandHistory =
  history :: "'c list"
  currentIndex :: int

definition maxHistorySize :: int where
  "maxHistorySize = 100"

definition emptyHistory :: "'c CommandHistory" where
  "emptyHistory = \<lparr>history = [], currentIndex = - 1\<rparr>"

text \<open>
  \<open>Array.prototype.slice(0, e)\<close>: a negative end counts from the end of the array, and
  anything below zero after that is clamped to zero.
\<close>

definition slice0 :: "'a list \<Rightarrow> int \<Rightarrow> 'a list" where
  "slice0 xs e = (if e < 0 then take (nat (int (length xs) + e)) xs else take (nat e) xs)"

text \<open>\<open>xs[i]\<close> of JavaScript: \<open>undefined\<close> (here \<open>None\<close>) outside the array.\<close>

definition at_index :: "'a list \<Rightarrow> int \<Rightarrow> 'a option" where
  "at_index xs i = (if 0 \<le> i \<and> i < int (length xs) then Some (xs ! nat i) else None)"

definition canUndo :: "'c CommandHistory \<Rightarrow> bool" where
  "canUndo h = (currentIndex h \<ge> 0)"

definition canRedo :: "'c CommandHistory \<Rightarrow> bool" where
  "canRedo h = (currentIndex h < int (length (history h)) - 1)"

text \<open>
  The part of \<open>executeCommand\<close> that runs before \<open>await command.execute()\<close>: drop the
  entries after the index, push, advance, and shift the oldest entry out when the array
  has grown past \<open>maxHistorySize\<close>.  Nothing after the \<open>await\<close> touches the history, so
  this is the whole effect of a commit on it, whether \<open>execute()\<close> resolves or rejects.
\<close>

definition drop_redo :: "'c CommandHistory \<Rightarrow> 'c CommandHistory" where
  "drop_redo h =
     (if currentIndex h < int (length (history h)) - 1
      then h\<lparr>history := slice0 (history h) (currentIndex h + 1)\<rparr> else h)"

definition push_command :: "'c \<Rightarrow> 'c CommandHistory \<Rightarrow> 'c CommandHistory" where
  "push_command command h =
     h\<lparr>history := history h @ [command], currentIndex := currentIndex h + 1\<rparr>"

definition over_limit :: "'c CommandHistory \<Rightarrow> bool" where
  "over_limit h = (int (length (history h)) > maxHistorySize)"

definition shift_oldest :: "'c CommandHistory \<Rightarrow> 'c CommandHistory" where
  "shift_oldest h = h\<lparr>history := tl (history h), currentIndex := currentIndex h - 1\<rparr>"

definition executeCommand_history :: "'c \<Rightarrow> 'c CommandHistory \<Rightarrow> 'c CommandHistory" where
  "executeCommand_history command h =
     (let h2 = push_command command (drop_redo h)
      in if over_limit h2 then shift_oldest h2 else h2)"

text \<open>
  \<open>undo()\<close> reads \<open>history[currentIndex]\<close> after the \<open>canUndo\<close> test and decrements the
  index only once \<open>command.undo()\<close> has resolved.  \<open>redo()\<close> increments first and then
  reads the entry.
\<close>

definition undo_target :: "'c CommandHistory \<Rightarrow> 'c option" where
  "undo_target h = (if canUndo h then at_index (history h) (currentIndex h) else None)"

definition undo_done :: "'c CommandHistory \<Rightarrow> 'c CommandHistory" where
  "undo_done h = h\<lparr>currentIndex := currentIndex h - 1\<rparr>"

definition redo_advance :: "'c CommandHistory \<Rightarrow> 'c CommandHistory" where
  "redo_advance h = h\<lparr>currentIndex := currentIndex h + 1\<rparr>"

definition redo_target :: "'c CommandHistory \<Rightarrow> 'c option" where
  "redo_target h =
     (if canRedo h then at_index (history (redo_advance h)) (currentIndex (redo_advance h))
      else None)"

definition clear :: "'c CommandHistory \<Rightarrow> 'c CommandHistory" where
  "clear h = h\<lparr>history := [], currentIndex := - 1\<rparr>"

text \<open>
  A call to the history, run to completion before the next one starts.  The flag of
  \<open>Commit\<close>, \<open>Undo\<close> and \<open>Redo\<close> says whether the command's own \<open>execute()\<close> or \<open>undo()\<close>
  resolved (\<open>True\<close>) or rejected (\<open>False\<close>); a rejection leaves \<open>undo()\<close> before its
  decrement, and comes too late to change what \<open>executeCommand\<close> and \<open>redo()\<close> did.
\<close>

datatype 'c history_call = Commit 'c bool | Undo bool | Redo bool | Clear

fun is_undo :: "'c history_call \<Rightarrow> bool" where
  "is_undo (Undo ok) = True"
| "is_undo other = False"

fun committed :: "'c history_call \<Rightarrow> 'c option" where
  "committed (Commit c ok) = Some c"
| "committed other = None"

fun do_call :: "'c history_call \<Rightarrow> 'c CommandHistory \<Rightarrow> 'c CommandHistory" where
  "do_call (Commit c ok) h = executeCommand_history c h"
| "do_call (Undo ok) h =
     (case undo_target h of
        None \<Rightarrow> h
      | Some c \<Rightarrow> if ok then undo_done h else h)"
| "do_call (Redo ok) h = (if canRedo h then redo_advance h else h)"
| "do_call Clear h = clear h"

definition history_calls :: "'c history_call list \<Rightarrow> 'c CommandHistory \<Rightarrow> 'c CommandHistory" where
  "history_calls cs h = fold do_call cs h"

text \<open>The invariant of the index, and the bound on the length.\<close>

definition index_inv :: "'c CommandHistory \<Rightarrow> bool" where
  "index_inv h \<longleftrightarrow> - 1 \<le> currentIndex h \<and> currentIndex h < int (length (history h))"

definition history_inv :: "'c CommandHistory \<Rightarrow> bool" where
  "history_inv h \<longleftrightarrow> index_inv h \<and> int (length (history h)) \<le> maxHistorySize"

definition at_tip :: "'c CommandHistory \<Rightarrow> bool" where
  "at_tip h \<longleftrightarrow> index_inv h \<and> currentIndex h = int (length (history h)) - 1"

section \<open>Canvas objects\<close>

subsection \<open>Numbers\<close>

text \<open>
  A JavaScript number is a double.  A finite one is modelled by the rational it denotes;
  the two infinities and \<open>NaN\<close> are values of their own, since the bounding box of
  \<open>createGroup\<close> starts from \<open>Infinity\<close> and \<open>-Infinity\<close> and stays there when no object is
  selected.  The two zeros are not told apart.
\<close>

datatype jsnum = Fin rat | PInf | NInf | NaN

text \<open>
  The result of an arithmetic operation is the exact result rounded to the nearest double,
  a tie going to the double with the even significand, and a result whose magnitude
  reaches 2 to the power 1024 to an infinity.  For a positive \<open>r\<close>, \<open>ilog2 r\<close> is the
  exponent \<open>e\<close> with \<open>2 powi e \<le> r < 2 powi (e + 1)\<close>; the doubles with that exponent are
  the multiples of \<open>2 powi (e - 52)\<close>, and the subnormal ones the multiples of
  \<open>2 powi (- 1074)\<close>.
\<close>

definition ilog2 :: "rat \<Rightarrow> int" where
  "ilog2 r =
     (case quotient_of r of (n, d) \<Rightarrow>
        let e = bitlen n - bitlen d in if 2 powi e \<le> r then e else e - 1)"

definition round_even :: "rat \<Rightarrow> int" where
  "round_even x =
     (let f = \<lfloor>x\<rfloor>; d = x - of_int f
      in if d < 1 / 2 then f else if 1 / 2 < d then f + 1 else if even f then f else f + 1)"

definition to_double :: "rat \<Rightarrow> jsnum" where
  "to_double r =
     (if r = 0 then Fin 0
      else
        let e = ilog2 \<bar>r\<bar>;
            q = max (e - 52) (- 1074);
            v = of_int (round_even (r / 2 powi q)) * 2 powi q
        in if 2 powi 1024 \<le> \<bar>v\<bar> then (if r < 0 then NInf else PInf) else Fin v)"

fun jneg :: "jsnum \<Rightarrow> jsnum" where
  "jneg (Fin a) = Fin (- a)"
| "jneg PInf = NInf"
| "jneg NInf = PInf"
| "jneg NaN = NaN"

text \<open>\<open>a + b\<close>.\<close>

fun jadd :: "jsnum \<Rightarrow> jsnum \<Rightarrow> jsnum" where
  "jadd (Fin a) (Fin b) = to_double (a + b)"
| "jadd NaN b = NaN"
| "jadd a NaN = NaN"
| "jadd PInf NInf = NaN"
| "jadd NInf PInf = NaN"
| "jadd PInf b = PInf"
| "jadd a PInf = PInf"
| "jadd NInf b = NInf"
| "jadd a NInf = NInf"

text \<open>\<open>a - b\<close>, which rounds as \<open>a + (-b)\<close> does.\<close>

definition jsub :: "jsnum \<Rightarrow> jsnum \<Rightarrow> jsnum" where
  "jsub a b = jadd a (jneg b)"

text \<open>\<open>a / 2\<close>.\<close>

fun jhalf :: "jsnum \<Rightarrow> jsnum" where
  "jhalf (Fin a) = to_double (a / 2)"
| "jhalf a = a"

fun jmin :: "jsnum \<Rightarrow> jsnum \<Rightarrow> jsnum" where
  "jmin NaN b = NaN"
| "jmin a NaN = NaN"
| "jmin NInf b = NInf"
| "jmin a NInf = NInf"
| "jmin PInf b = b"
| "jmin a PInf = a"
| "jmin (Fin a) (Fin b) = Fin (min a b)"

fun jmax :: "jsnum \<Rightarrow> jsnum \<Rightarrow> jsnum" where
  "jmax NaN b = NaN"
| "jmax a NaN = NaN"
| "jmax PInf b = PInf"
| "jmax a PInf = PInf"
| "jmax NInf b = b"
| "jmax a NInf = a"
| "jmax (Fin a) (Fin b) = Fin (max a b)"

text \<open>
  \<open>Math.min(...)\<close> and \<open>Math.max(...)\<close> of any number of arguments: \<open>Infinity\<close> and
  \<open>-Infinity\<close> for none, \<open>NaN\<close> as soon as one argument is \<open>NaN\<close>.
\<close>

definition Math_min :: "jsnum list \<Rightarrow> jsnum" where
  "Math_min xs = foldl jmin PInf xs"

definition Math_max :: "jsnum list \<Rightarrow> jsnum" where
  "Math_max xs = foldl jmax NInf xs"

text \<open>
  \<open>a || b\<close> on numbers: \<open>b\<close> when \<open>a\<close> is falsy, which for a number means \<open>0\<close> or
  \<open>NaN\<close>, and for an optional field also \<open>undefined\<close>.
\<close>

fun truthy :: "jsnum \<Rightarrow> bool" where
  "truthy (Fin a) = (a \<noteq> 0)"
| "truthy NaN = False"
| "truthy a = True"

definition or_num :: "jsnum \<Rightarrow> jsnum \<Rightarrow> jsnum" where
  "or_num a b = (if truthy a then a else b)"

definition or_opt :: "jsnum option \<Rightarrow> jsnum \<Rightarrow> jsnum" where
  "or_opt a b = (case a of None \<Rightarrow> b | Some v \<Rightarrow> or_num v b)"

subsection \<open>Objects and partial objects\<close>

text \<open>
  The interface \<open>CanvasObject\<close> is declared in \<open>src/types\<close>, which is not among the
  sources; the record below has the fields that \<open>CanvasContext.tsx\<close> and \<open>commands.ts\<close>
  read or write.  Identifier, type tag, position, size and the two timestamps are always
  present; the other fields may be \<open>undefined\<close> (\<open>None\<close>), as the guards \<open>obj.x2 || obj.x\<close>
  and \<open>obj.zIndex || 0\<close> of the source allow.  A key that is present with the value
  \<open>undefined\<close> and a key that is absent are the same object here.  The fields carry the
  prefix \<open>o_\<close> since \<open>id\<close>, \<open>x\<close> and \<open>y\<close> are needed as names elsewhere.
\<close>

record CanvasObject =
  o_id :: string
  o_type :: string
  o_x :: jsnum
  o_y :: jsnum
  o_width :: jsnum
  o_height :: jsnum
  o_x2 :: "jsnum option"
  o_y2 :: "jsnum option"
  o_zIndex :: "jsnum option"
  o_fill :: "string option"
  o_nickname :: "string option"
  o_groupedObjects :: "string list option"
  o_shadow :: "bool option"
  o_createdBy :: "string option"
  o_createdAt :: jsnum
  o_lastModified :: jsnum

text \<open>
  \<open>Partial<CanvasObject>\<close>: for each key, \<open>None\<close> when the key is absent and \<open>Some v\<close> when
  it is present with value \<open>v\<close>; for a field that may be \<open>undefined\<close> the value \<open>v\<close> is
  itself an option.  A partial object that sets one of the always-present fields to
  \<open>undefined\<close> has no counterpart here.
\<close>

record Partial =
  p_id :: "string option"
  p_type :: "string option"
  p_x :: "jsnum option"
  p_y :: "jsnum option"
  p_width :: "jsnum option"
  p_height :: "jsnum option"
  p_x2 :: "jsnum option option"
  p_y2 :: "jsnum option option"
  p_zIndex :: "jsnum option option"
  p_fill :: "string option option"
  p_nickname :: "string option option"
  p_groupedObjects :: "string list option option"
  p_shadow :: "bool option option"
  p_createdBy :: "string option option"
  p_createdAt :: "jsnum option"
  p_lastModified :: "jsnum option"

definition no_keys :: Partial where
  "no_keys = \<lparr>p_id = None, p_type = None, p_x = None, p_y = None, p_width = None,
     p_height = None, p_x2 = None, p_y2 = None, p_zIndex = None, p_fill = None,
     p_nickname = None, p_groupedObjects = None, p_shadow = None, p_createdBy = None,
     p_createdAt = None, p_lastModified = None\<rparr>"

text \<open>One key of the spread \<open>{ ...obj, ...updates }\<close>: the update's value when it has the key.\<close>

definition spread_key :: "'a \<Rightarrow> 'a option \<Rightarrow> 'a" where
  "spread_key old new = (case new of None \<Rightarrow> old | Some v \<Rightarrow> v)"

definition spread :: "CanvasObject \<Rightarrow> Partial \<Rightarrow> CanvasObject" where
  "spread obj u =
     \<lparr>o_id = spread_key (o_id obj) (p_id u),
      o_type = spread_key (o_type obj) (p_type u),
      o_x = spread_key (o_x obj) (p_x u),
      o_y = spread_key (o_y obj) (p_y u),
      o_width = spread_key (o_width obj) (p_width u),
      o_height = spread_key (o_height obj) (p_height u),
      o_x2 = spread_key (o_x2 obj) (p_x2 u),
      o_y2 = spread_key (o_y2 obj) (p_y2 u),
      o_zIndex = spread_key (o_zIndex obj) (p_zIndex u),
      o_fill = spread_key (o_fill obj) (p_fill u),
      o_nickname = spread_key (o_nickname obj) (p_nickname u),
      o_groupedObjects = spread_key (o_groupedObjects obj) (p_groupedObjects u),
      o_shadow = spread_key (o_shadow obj) (p_shadow u),
      o_createdBy = spread_key (o_createdBy obj) (p_createdBy u),
      o_createdAt = spread_key (o_createdAt obj) (p_createdAt u),
      o_lastModified = spread_key (o_lastModified obj) (p_lastModified u)\<rparr>"

text \<open>
  The loop of \<open>updateObject\<close> that fills \<open>previousState\<close>: for every key of \<open>updates\<close>, the
  value the existing object has under that key.
\<close>

definition previous_key :: "'b option \<Rightarrow> 'a \<Rightarrow> 'a option" where
  "previous_key k v = (case k of None \<Rightarrow> None | Some w \<Rightarrow> Some v)"

definition previousState_of :: "Partial \<Rightarrow> CanvasObject \<Rightarrow> Partial" where
  "previousState_of updates existingObject =
     \<lparr>p_id = previous_key (p_id updates) (o_id existingObject),
      p_type = previous_key (p_type updates) (o_type existingObject),
      p_x = previous_key (p_x updates) (o_x existingObject),
      p_y = previous_key (p_y updates) (o_y existingObject),
      p_width = previous_key (p_width updates) (o_width existingObject),
      p_height = previous_key (p_height updates) (o_height existingObject),
      p_x2 = previous_key (p_x2 updates) (o_x2 existingObject),
      p_y2 = previous_key (p_y2 updates) (o_y2 existingObject),
      p_zIndex = previous_key (p_zIndex updates) (o_zIndex existingObject),
      p_fill = previous_key (p_fill updates) (o_fill existingObject),
      p_nickname = previous_key (p_nickname updates) (o_nickname existingObject),
      p_groupedObjects = previous_key (p_groupedObjects updates) (o_groupedObjects existingObject),
      p_shadow = previous_key (p_shadow updates) (o_shadow existingObject),
      p_createdBy = previous_key (p_createdBy updates) (o_createdBy existingObject),
      p_createdAt = previous_key (p_createdAt updates) (o_createdAt existingObject),
      p_lastModified = previous_key (p_lastModified updates) (o_lastModified existingObject)\<rparr>"

text \<open>
  \<open>removeUndefinedValues\<close> on a partial object drops the keys whose value is \<open>undefined\<close>.
  On a \<open>CanvasObject\<close> it changes nothing in this model, where an \<open>undefined\<close> field and
  an absent one are the same.
\<close>

definition defined_key :: "'a option option \<Rightarrow> 'a option option" where
  "defined_key k = (case k of Some None \<Rightarrow> None | other \<Rightarrow> other)"

definition removeUndefinedValues :: "Partial \<Rightarrow> Partial" where
  "removeUndefinedValues u =
     u\<lparr>p_x2 := defined_key (p_x2 u), p_y2 := defined_key (p_y2 u),
       p_zIndex := defined_key (p_zIndex u), p_fill := defined_key (p_fill u),
       p_nickname := defined_key (p_nickname u),
       p_groupedObjects := defined_key (p_groupedObjects u),
       p_shadow := defined_key (p_shadow u), p_createdBy := defined_key (p_createdBy u)\<rparr>"

text \<open>\<open>prev.find(obj => obj.id === id)\<close>.\<close>

definition find_id :: "string \<Rightarrow> CanvasObject list \<Rightarrow> CanvasObject option" where
  "find_id i objs = find (\<lambda>obj. o_id obj = i) objs"

subsection \<open>\<open>JSON.stringify\<close> of the object list\<close>

text \<open>
  \<open>setObjects\<close> compares \<open>JSON.stringify(prev)\<close> with \<open>JSON.stringify(newObjects)\<close>.  The
  text is modelled by the tree it spells: \<open>NaN\<close> and the infinities are written \<open>null\<close>, and
  a key with an \<open>undefined\<close> value is left out.
\<close>

datatype json = JNull | JNum rat | JStr string | JBool bool | JArr "json list"

fun json_num :: "jsnum \<Rightarrow> json" where
  "json_num (Fin a) = JNum a"
| "json_num a = JNull"

text \<open>What \<open>JSON.stringify\<close> writes for one key of an object, if it writes the key at all.\<close>

definition field_json :: "string \<Rightarrow> CanvasObject \<Rightarrow> json option" where
  "field_json k obj =
     (if k = ''id'' then Some (JStr (o_id obj))
      else if k = ''type'' then Some (JStr (o_type obj))
      else if k = ''x'' then Some (json_num (o_x obj))
      else if k = ''y'' then Some (json_num (o_y obj))
      else if k = ''width'' then Some (json_num (o_width obj))
      else if k = ''height'' then Some (json_num (o_height obj))
      else if k = ''x2'' then map_option json_num (o_x2 obj)
      else if k = ''y2'' then map_option json_num (o_y2 obj)
      else if k = ''zIndex'' then map_option json_num (o_zIndex obj)
      else if k = ''fill'' then map_option JStr (o_fill obj)
      else if k = ''nickname'' then map_option JStr (o_nickname obj)
      else if k = ''groupedObjects'' then
        map_option (\<lambda>ids. JArr (map JStr ids)) (o_groupedObjects obj)
      else if k = ''shadow'' then map_option JBool (o_shadow obj)
      else if k = ''createdBy'' then map_option JStr (o_createdBy obj)
      else if k = ''createdAt'' then Some (json_num (o_createdAt obj))
      else if k = ''lastModified'' then Some (json_num (o_lastModified obj))
      else None)"

text \<open>
  \<open>JSON.stringify\<close> writes the keys of an object in the order in which they were put into
  it, so the text of two objects with the same values differs when their keys were put in
  in different orders.  The record \<open>CanvasObject\<close> holds the values only.  Where the text is
  taken, an object therefore comes with the list of its keys in their order: one such
  pair is the JavaScript object the way \<open>JSON.stringify\<close> reads it.
\<close>

type_synonym keyed = "string list \<times> CanvasObject"

definition stringify_object :: "keyed \<Rightarrow> (string \<times> json) list" where
  "stringify_object ko =
     (case ko of (keys, obj) \<Rightarrow>
        List.map_filter (\<lambda>k. map_option (Pair k) (field_json k obj)) keys)"

definition stringify :: "keyed list \<Rightarrow> (string \<times> json) list list" where
  "stringify objs = map stringify_object objs"

section \<open>Commands\<close>

text \<open>
  The five command classes of \<open>commands.ts\<close>, with the data their \<open>execute\<close> and \<open>undo\<close>
  use: the object of an add, a delete or a group creation, and the object id with the
  \<open>updates\<close> and the \<open>previousState\<close> of an update.  The callbacks a command is constructed
  with are always the four store and state functions of \<open>CanvasContext.tsx\<close>, defined
  below.  The fields that only feed \<open>getDescription\<close> are left out.
\<close>

type_synonym update = "string \<times> Partial \<times> Partial"

datatype Command =
    AddObjectCommand CanvasObject
  | DeleteObjectCommand CanvasObject
  | UpdateObjectCommand string Partial Partial
  | UpdateMultipleObjectsCommand "update list"
  | CreateGroupCommand CanvasObject "string list"

subsection \<open>The updaters passed to \<open>updateLocalState\<close>\<close>

text \<open>
  An updater is called with the array the state cell holds and returns the array the cell
  is to hold.  The updater of an add returns \<open>prev\<close> itself when the id is already there,
  which is \<open>None\<close> below, and a new array otherwise; the updaters built from \<open>filter\<close> and
  from \<open>map\<close> always return a new array, also when it has the elements of the old one.
\<close>

definition add_updater :: "CanvasObject \<Rightarrow> CanvasObject list \<Rightarrow> CanvasObject list option" where
  "add_updater object prev =
     (if find_id (o_id object) prev \<noteq> None then None else Some (prev @ [object]))"

definition remove_updater :: "string \<Rightarrow> CanvasObject list \<Rightarrow> CanvasObject list" where
  "remove_updater i prev = filter (\<lambda>obj. o_id obj \<noteq> i) prev"

text \<open>\<open>now\<close> is the reading of \<open>Date.now()\<close>.\<close>

definition update_updater ::
    "jsnum \<Rightarrow> string \<Rightarrow> Partial \<Rightarrow> CanvasObject list \<Rightarrow> CanvasObject list" where
  "update_updater now objectId updates prev =
     map (\<lambda>obj. if o_id obj = objectId
                 then (spread obj updates)\<lparr>o_lastModified := now\<rparr> else obj) prev"

section \<open>The state of \<open>CanvasProvider\<close>\<close>

text \<open>
  The calls that reach Firestore, in the order they are issued: \<open>setDoc(ref, obj)\<close>,
  \<open>setDoc(ref, obj, {merge: true})\<close> and \<open>deleteDoc(ref)\<close>, each with the id the document
  reference is built from.
\<close>

datatype StoreCall =
    SetDoc string CanvasObject
  | SetDocMerge string CanvasObject
  | DeleteDoc string

text \<open>
  The state cells and refs of the provider that the intents read or write, and the log
  of store calls.  \<open>currentUser\<close> holds the uid of the signed-in user.  The cells
  \<open>canUndo\<close> and \<open>canRedo\<close> only mirror the two predicates of the history for the toolbar
  and are left out, as are \<open>drawingMode\<close> and \<open>tempLineStart\<close>.

  React runs an updater handed to \<open>setObjectsState\<close> at once when no update of a cell of
  the provider is waiting for a render; when one is waiting, the updater is kept and runs
  in the next render, after those kept before it.  \<open>renderPending\<close> tells that an update
  of \<open>objects\<close>, \<open>selectedId\<close> or \<open>selectedIds\<close> is waiting; the updates of the cells that
  are left out are not counted.  Each cell holds the value the next render shows, which
  for \<open>objects\<close> is the value with the updaters kept so far applied to it; what a kept
  updater assigns to \<open>objectsRef\<close> is not assigned before that render.  \<open>objectsIdentity\<close>
  counts the arrays the cell has held: it goes up whenever the cell is given an array
  other than the one it holds, so that two states that agree on \<open>objects\<close> and on
  \<open>objectsIdentity\<close> hold the same array.
\<close>

record State =
  objects :: "CanvasObject list"
  objectsIdentity :: nat
  renderPending :: bool
  objectsRef :: "CanvasObject list"
  selectedId :: "string option"
  selectedIds :: "string list"
  commandHistory :: "Command CommandHistory"
  isExecutingCommand :: bool
  currentUser :: "string option"
  firestoreCalls :: "StoreCall list"

text \<open>
  \<open>updateObjectsState\<close> hands \<open>setObjectsState\<close> an updater that runs the given one and
  assigns its result to \<open>objectsRef.current\<close>.  Run at once, an updater that returns \<open>prev\<close>
  leaves the cell as it is and nothing waits for a render.
\<close>

definition updateObjectsState ::
    "(CanvasObject list \<Rightarrow> CanvasObject list option) \<Rightarrow> State \<Rightarrow> State" where
  "updateObjectsState updater st =
     (case updater (objects st) of
        None \<Rightarrow> if renderPending st then st else st\<lparr>objectsRef := objects st\<rparr>
      | Some next \<Rightarrow>
          if renderPending st
          then st\<lparr>objects := next, objectsIdentity := Suc (objectsIdentity st)\<rparr>
          else st\<lparr>objects := next, objectsIdentity := Suc (objectsIdentity st),
                  renderPending := True, objectsRef := next\<rparr>)"

text \<open>
  A render: the updaters that were kept have run, the effect on \<open>objects\<close> has assigned the
  cell to \<open>objectsRef.current\<close>, and nothing is waiting.
\<close>

definition rendered :: "State \<Rightarrow> State" where
  "rendered st = st\<lparr>renderPending := False, objectsRef := objects st\<rparr>"

definition call_store :: "StoreCall \<Rightarrow> State \<Rightarrow> State" where
  "call_store c st = st\<lparr>firestoreCalls := firestoreCalls st @ [c]\<rparr>"

definition addToFirestore :: "CanvasObject \<Rightarrow> State \<Rightarrow> State" where
  "addToFirestore obj st = call_store (SetDoc (o_id obj) obj) st"

definition removeFromFirestore :: "string \<Rightarrow> State \<Rightarrow> State" where
  "removeFromFirestore i st = call_store (DeleteDoc i) st"

text \<open>
  \<open>updateInFirestore\<close> looks the object up in \<open>objectsRef.current\<close> and writes nothing when it
  is not there.
\<close>

definition updateInFirestore :: "jsnum \<Rightarrow> string \<Rightarrow> Partial \<Rightarrow> State \<Rightarrow> State" where
  "updateInFirestore now i updates st =
     (case find_id i (objectsRef st) of
        None \<Rightarrow> st
      | Some currentObject \<Rightarrow>
          call_store (SetDocMerge i
            ((spread currentObject (removeUndefinedValues updates))\<lparr>o_lastModified := now\<rparr>)) st)"

text \<open>\<open>setSelectedId(null)\<close> and \<open>setSelectedIds([])\<close>, the latter with a new array.\<close>

definition clearSelection :: "State \<Rightarrow> State" where
  "clearSelection st = st\<lparr>selectedId := None, selectedIds := [], renderPending := True\<rparr>"

subsection \<open>\<open>execute()\<close> and \<open>undo()\<close> up to their first \<open>await\<close>\<close>

text \<open>
  Every \<open>execute\<close> and \<open>undo\<close> updates the local state, issues its store call and then
  awaits it.  The functions below are that synchronous part; what follows the \<open>await\<close>
  belongs to the caller and is given with the intents.  \<open>Promise.all\<close> over the mapped
  \<open>execute()\<close> calls of a multiple update runs the synchronous parts one after the other
  and awaits all store calls together.
\<close>

definition update_execute :: "jsnum \<Rightarrow> update \<Rightarrow> State \<Rightarrow> State" where
  "update_execute now u st =
     (case u of (objectId, updates, previousState) \<Rightarrow>
        updateInFirestore now objectId updates
          (updateObjectsState (\<lambda>prev. Some (update_updater now objectId updates prev)) st))"

definition update_undo :: "jsnum \<Rightarrow> update \<Rightarrow> State \<Rightarrow> State" where
  "update_undo now u st =
     (case u of (objectId, updates, previousState) \<Rightarrow>
        updateInFirestore now objectId previousState
          (updateObjectsState (\<lambda>prev. Some (update_updater now objectId previousState prev)) st))"

fun execute :: "jsnum \<Rightarrow> Command \<Rightarrow> State \<Rightarrow> State" where
  "execute now (AddObjectCommand object) st =
     addToFirestore object (updateObjectsState (add_updater object) st)"
| "execute now (DeleteObjectCommand object) st =
     removeFromFirestore (o_id object)
       (updateObjectsState (\<lambda>prev. Some (remove_updater (o_id object) prev)) st)"
| "execute now (UpdateObjectCommand objectId updates previousState) st =
     update_execute now (objectId, updates, previousState) st"
| "execute now (UpdateMultipleObjectsCommand us) st = fold (update_execute now) us st"
| "execute now (CreateGroupCommand groupObject groupedObjectIds) st =
     addToFirestore groupObject (updateObjectsState (add_updater groupObject) st)"

text \<open>
  \<open>undo()\<close> of a multiple update awaits each single \<open>undo()\<close> before the next, last command
  first.  \<open>undo_first\<close> runs up to the first \<open>await\<close> and returns the updates still to be
  undone; \<open>undo_rest\<close> runs them with further clock readings, for a caller that is not
  interrupted and whose store calls all resolve.  React may render between two of them
  (\<open>rendered\<close>); that changes \<open>objectsRef\<close> and with it the documents written to the store,
  but not \<open>objects\<close>.
\<close>

fun undo_first :: "jsnum \<Rightarrow> Command \<Rightarrow> State \<Rightarrow> State \<times> update list" where
  "undo_first now (AddObjectCommand object) st =
     (removeFromFirestore (o_id object)
       (updateObjectsState (\<lambda>prev. Some (remove_updater (o_id object) prev)) st), [])"
| "undo_first now (DeleteObjectCommand object) st =
     (addToFirestore object (updateObjectsState (add_updater object) st), [])"
| "undo_first now (UpdateObjectCommand objectId updates previousState) st =
     (update_undo now (objectId, updates, previousState) st, [])"
| "undo_first now (UpdateMultipleObjectsCommand us) st =
     (case rev us of [] \<Rightarrow> (st, []) | u # rest \<Rightarrow> (update_undo now u st, rest))"
| "undo_first now (CreateGroupCommand groupObject groupedObjectIds) st =
     (removeFromFirestore (o_id groupObject)
        (updateObjectsState (\<lambda>prev. Some (remove_updater (o_id groupObject) prev)) st), [])"

fun undo_rest :: "(nat \<Rightarrow> jsnum) \<Rightarrow> update list \<Rightarrow> State \<Rightarrow> State" where
  "undo_rest clock [] st = st"
| "undo_rest clock (u # rest) st = undo_rest (\<lambda>n. clock (Suc n)) rest (update_undo (clock 0) u st)"

definition undo_command :: "(nat \<Rightarrow> jsnum) \<Rightarrow> Command \<Rightarrow> State \<Rightarrow> State" where
  "undo_command clock command st =
     (case undo_first (clock 0) command st of
        (st1, rest) \<Rightarrow> undo_rest (\<lambda>n. clock (Suc n)) rest st1)"

section \<open>The intents of \<open>CanvasContext.tsx\<close>\<close>

text \<open>
  An intent is an \<open>async\<close> function.  It is modelled by the state it leaves when it first
  suspends, together with what it is waiting for (\<open>None\<close> when it returned without
  awaiting anything), and by \<open>settle\<close>, which resumes it once the awaited store call has
  resolved (\<open>True\<close>) or rejected (\<open>False\<close>).  While an intent is suspended any other
  intent or snapshot may run on the state it left, and React may render (\<open>rendered\<close>).  All
  readings of \<open>Date.now()\<close> within one such run are one value \<open>now\<close>, and \<open>generateId()\<close>
  returns \<open>newId\<close>.
\<close>

datatype Pending =
    AwaitCommit bool
  | AwaitUndo "update list"
  | AwaitRedo

text \<open>
  \<open>commandHistoryRef.current.executeCommand(command)\<close> up to its \<open>await\<close>: the history is
  changed first, then the command starts to execute.
\<close>

definition executeCommand :: "jsnum \<Rightarrow> Command \<Rightarrow> State \<Rightarrow> State" where
  "executeCommand now command st =
     execute now command
       (st\<lparr>commandHistory := executeCommand_history command (commandHistory st)\<rparr>)"

text \<open>
  \<open>addObject\<close>, \<open>updateObject\<close>, \<open>deleteObject\<close> and \<open>createGroup\<close> are made by
  \<open>useCallback\<close> in a render and read \<open>currentUser\<close>, \<open>objects\<close>, \<open>selectedId\<close> and
  \<open>selectedIds\<close> as constants of that render, whatever the cells hold when the function is
  called; the refs \<open>commandHistoryRef\<close>, \<open>isExecutingCommandRef\<close> and \<open>objectsRef\<close> are read
  when it is called.  \<open>Render\<close> holds the four constants, \<open>render st\<close> those of a render in
  the state \<open>st\<close>, and each of the four intents takes, before its own arguments, those of
  the render it was made in.
\<close>

record Render =
  r_objects :: "CanvasObject list"
  r_selectedId :: "string option"
  r_selectedIds :: "string list"
  r_currentUser :: "string option"

definition render :: "State \<Rightarrow> Render" where
  "render st =
     \<lparr>r_objects = objects st, r_selectedId = selectedId st, r_selectedIds = selectedIds st,
      r_currentUser = currentUser st\<rparr>"

text \<open>The object \<open>addObject\<close> builds from its argument.\<close>

definition newObject_of :: "CanvasObject \<Rightarrow> string \<Rightarrow> jsnum \<Rightarrow> CanvasObject" where
  "newObject_of object newId now =
     object\<lparr>o_id := newId, o_createdAt := now, o_lastModified := now,
            o_width := or_num (o_width object) (Fin 100),
            o_height := or_num (o_height object) (Fin 100)\<rparr>"

definition addObject ::
    "Render \<Rightarrow> CanvasObject \<Rightarrow> string \<Rightarrow> jsnum \<Rightarrow> State \<Rightarrow> State \<times> Pending option" where
  "addObject r object newId now st =
     (if r_currentUser r = None \<or> isExecutingCommand st then (st, None)
      else
        let newObject = newObject_of object newId now
        in (executeCommand now (AddObjectCommand newObject) st, Some (AwaitCommit False)))"

definition updateObject ::
    "Render \<Rightarrow> string \<Rightarrow> Partial \<Rightarrow> jsnum \<Rightarrow> State \<Rightarrow> State \<times> Pending option" where
  "updateObject r i updates now st =
     (if r_currentUser r = None \<or> isExecutingCommand st then (st, None)
      else case find_id i (r_objects r) of
        None \<Rightarrow> (st, None)
      | Some existingObject \<Rightarrow>
          let previousState = previousState_of updates existingObject
          in (executeCommand now (UpdateObjectCommand i updates previousState) st,
              Some (AwaitCommit False)))"

text \<open>
  \<open>deleteObject\<close> calls \<open>setSelectedId(null)\<close> when the deleted object is the selected one of
  its render; that asks for a render unless none is waiting and the cell holds \<open>null\<close>
  already.
\<close>

definition deleteObject :: "Render \<Rightarrow> string \<Rightarrow> jsnum \<Rightarrow> State \<Rightarrow> State \<times> Pending option" where
  "deleteObject r i now st =
     (if r_currentUser r = None \<or> isExecutingCommand st then (st, None)
      else case find_id i (r_objects r) of
        None \<Rightarrow> (st, None)
      | Some objectToDelete \<Rightarrow>
          let st1 = (if r_selectedId r = Some i
                     then st\<lparr>selectedId := None,
                             renderPending := (renderPending st \<or> selectedId st \<noteq> None)\<rparr>
                     else st)
          in (executeCommand now (DeleteObjectCommand objectToDelete) st1,
              Some (AwaitCommit False)))"

subsection \<open>\<open>createGroup\<close>\<close>

text \<open>The four running bounds \<open>(minX, minY, maxX, maxY)\<close> and one round of the \<open>forEach\<close>.\<close>

type_synonym bounds = "jsnum \<times> jsnum \<times> jsnum \<times> jsnum"

fun extend_bounds :: "CanvasObject \<Rightarrow> bounds \<Rightarrow> bounds" where
  "extend_bounds obj (minX, minY, maxX, maxY) =
     (if o_type obj = ''line'' then
        (Math_min [minX, o_x obj, or_opt (o_x2 obj) (o_x obj)],
         Math_min [minY, o_y obj, or_opt (o_y2 obj) (o_y obj)],
         Math_max [maxX, o_x obj, or_opt (o_x2 obj) (o_x obj)],
         Math_max [maxY, o_y obj, or_opt (o_y2 obj) (o_y obj)])
      else if o_type obj = ''circle'' then
        (let radius = jhalf (o_width obj)
         in (Math_min [minX, jsub (o_x obj) radius],
             Math_min [minY, jsub (o_y obj) radius],
             Math_max [maxX, jadd (o_x obj) radius],
             Math_max [maxY, jadd (o_y obj) radius]))
      else
        (let halfWidth = jhalf (o_width obj); halfHeight = jhalf (o_height obj)
         in (Math_min [minX, jsub (o_x obj) halfWidth],
             Math_min [minY, jsub (o_y obj) halfHeight],
             Math_max [maxX, jadd (o_x obj) halfWidth],
             Math_max [maxY, jadd (o_y obj) halfHeight])))"

definition selection_bounds :: "CanvasObject list \<Rightarrow> bounds" where
  "selection_bounds selectedObjects = fold extend_bounds selectedObjects (PInf, PInf, NInf, NInf)"

text \<open>The decimal digits of a length, for the nickname \<open>Group of n\<close>.\<close>

fun digits :: "nat \<Rightarrow> string" where
  "digits n = (if n < 10 then [''0123456789'' ! n]
               else digits (n div 10) @ [''0123456789'' ! (n mod 10)])"

definition groupObject_of ::
    "string \<Rightarrow> string list \<Rightarrow> CanvasObject list \<Rightarrow> string \<Rightarrow> jsnum \<Rightarrow> CanvasObject" where
  "groupObject_of uid ids selectedObjects newId now =
     (case selection_bounds selectedObjects of (minX0, minY0, maxX0, maxY0) \<Rightarrow>
        let padding = Fin 20;
            minX = jsub minX0 padding; minY = jsub minY0 padding;
            maxX = jadd maxX0 padding; maxY = jadd maxY0 padding;
            width = jsub maxX minX; height = jsub maxY minY;
            centerX = jadd minX (jhalf width); centerY = jadd minY (jhalf height)
        in \<lparr>o_id = newId, o_type = ''group'', o_x = centerX, o_y = centerY,
             o_width = width, o_height = height, o_x2 = None, o_y2 = None,
             o_zIndex = Some (jadd (Math_max (map (\<lambda>obj. or_opt (o_zIndex obj) (Fin 0))
                                               selectedObjects)) (Fin 1)),
             o_fill = Some ''#000000'', o_nickname = Some (''Group of '' @ digits (length ids)),
             o_groupedObjects = Some ids, o_shadow = Some False, o_createdBy = Some uid,
             o_createdAt = now, o_lastModified = now\<rparr>)"

definition createGroup :: "Render \<Rightarrow> string \<Rightarrow> jsnum \<Rightarrow> State \<Rightarrow> State \<times> Pending option" where
  "createGroup r newId now st =
     (case r_currentUser r of
        None \<Rightarrow> (st, None)
      | Some uid \<Rightarrow>
          if length (r_selectedIds r) < 2 then (st, None)
          else
            let selectedObjects = filter (\<lambda>obj. o_id obj \<in> set (r_selectedIds r)) (r_objects r);
                newGroupObject = groupObject_of uid (r_selectedIds r) selectedObjects newId now
            in (executeCommand now (CreateGroupCommand newGroupObject (r_selectedIds r)) st,
                Some (AwaitCommit True)))"

subsection \<open>Snapshots\<close>

text \<open>
  \<open>setObjects\<close>, which the Firestore listener calls with every snapshot.  The flag is read
  when \<open>setObjects\<close> is called; the updater it hands to \<open>setObjectsState\<close> compares the two
  texts and returns \<open>prev\<close> itself when they are equal, and otherwise assigns the snapshot
  to \<open>objectsRef.current\<close> and returns it.  \<open>prevKeys\<close> lists, for every object of the cell,
  its keys in their order; the objects of the snapshot come with theirs.
\<close>

definition setObjects :: "string list list \<Rightarrow> keyed list \<Rightarrow> State \<Rightarrow> State" where
  "setObjects prevKeys newObjects st =
     (if isExecutingCommand st then st
      else if stringify (zip prevKeys (objects st)) = stringify newObjects then st
      else if renderPending st
      then st\<lparr>objects := map snd newObjects, objectsIdentity := Suc (objectsIdentity st)\<rparr>
      else st\<lparr>objects := map snd newObjects, objectsIdentity := Suc (objectsIdentity st),
              renderPending := True, objectsRef := map snd newObjects\<rparr>)"

subsection \<open>\<open>undo\<close> and \<open>redo\<close>\<close>

text \<open>
  Both set \<open>isExecutingCommandRef.current\<close> before calling the history and clear it in
  their \<open>finally\<close> block.  When the entry read from the history is \<open>undefined\<close> the call on
  it throws before anything is awaited; the state is then as before, except for the
  index that \<open>redo()\<close> has already advanced.
\<close>

definition undo :: "jsnum \<Rightarrow> State \<Rightarrow> State \<times> Pending option" where
  "undo now st =
     (if isExecutingCommand st then (st, None)
      else if \<not> canUndo (commandHistory st) then (st, None)
      else case undo_target (commandHistory st) of
        None \<Rightarrow> (st, None)
      | Some command \<Rightarrow>
          (case undo_first now command (st\<lparr>isExecutingCommand := True\<rparr>) of
             (st1, rest) \<Rightarrow> (st1, Some (AwaitUndo rest))))"

definition redo :: "jsnum \<Rightarrow> State \<Rightarrow> State \<times> Pending option" where
  "redo now st =
     (if isExecutingCommand st then (st, None)
      else if \<not> canRedo (commandHistory st) then (st, None)
      else case redo_target (commandHistory st) of
        None \<Rightarrow> (st\<lparr>commandHistory := redo_advance (commandHistory st)\<rparr>, None)
      | Some command \<Rightarrow>
          (execute now command
             (st\<lparr>isExecutingCommand := True,
                 commandHistory := redo_advance (commandHistory st)\<rparr>),
           Some AwaitRedo))"

text \<open>
  What runs when the awaited call settles.  A commit has nothing left to do but, for
  \<open>createGroup\<close> on success, to clear the selection.  \<open>undo\<close> goes on with the next single
  undo of a multiple update, or decrements the index, clears the selection and drops the
  flag; a rejection skips to dropping the flag.  \<open>redo\<close> clears the selection on success
  and drops the flag.
\<close>

fun settle :: "Pending \<Rightarrow> bool \<Rightarrow> jsnum \<Rightarrow> State \<Rightarrow> State \<times> Pending option" where
  "settle (AwaitCommit clear_after) ok now st =
     (if ok \<and> clear_after then clearSelection st else st, None)"
| "settle (AwaitUndo rest) ok now st =
     (if \<not> ok then (st\<lparr>isExecutingCommand := False\<rparr>, None)
      else case rest of
        [] \<Rightarrow> ((clearSelection (st\<lparr>commandHistory := undo_done (commandHistory st)\<rparr>))
                 \<lparr>isExecutingCommand := False\<rparr>, None)
      | u # us \<Rightarrow> (update_undo now u st, Some (AwaitUndo us)))"
| "settle AwaitRedo ok now st =
     ((if ok then clearSelection st else st)\<lparr>isExecutingCommand := False\<rparr>, None)"

subsection \<open>Selection\<close>

definition selectMultiple :: "string list \<Rightarrow> State \<Rightarrow> State" where
  "selectMultiple ids st =
     st\<lparr>selectedIds := ids, selectedId := (if length ids = 1 then Some (hd ids) else None),
        renderPending := True\<rparr>"

section \<open>Notions used in the statements\<close>

text \<open>
  The order of the numbers: \<open>-Infinity\<close> below every finite number, \<open>Infinity\<close> above, and
  \<open>NaN\<close> related to nothing.
\<close>

fun jle :: "jsnum \<Rightarrow> jsnum \<Rightarrow> bool" where
  "jle NaN b = False"
| "jle a NaN = False"
| "jle NInf b = True"
| "jle a PInf = True"
| "jle (Fin a) (Fin b) = (a \<le> b)"
| "jle a b = False"

text \<open>The z-order index \<open>createGroup\<close> counts a member with: \<open>obj.zIndex || 0\<close>.\<close>

definition counted_zIndex :: "CanvasObject \<Rightarrow> jsnum" where
  "counted_zIndex obj = or_opt (o_zIndex obj) (Fin 0)"

text \<open>
  The z-order index of an object, when it has one and it is an integer of magnitude below
  2 to the power 53, the integers that doubles count without gaps.
\<close>

definition safe_zIndex :: "CanvasObject \<Rightarrow> int option" where
  "safe_zIndex obj =
     (case o_zIndex obj of
        Some (Fin z) \<Rightarrow>
          if z = of_int \<lfloor>z\<rfloor> \<and> \<bar>z\<bar> < 9007199254740992 then Some \<lfloor>z\<rfloor> else None
      | other \<Rightarrow> None)"

text \<open>An object with its last-modified stamp blanked, to compare objects up to that stamp.\<close>

definition without_lastModified :: "CanvasObject \<Rightarrow> CanvasObject" where
  "without_lastModified obj = obj\<lparr>o_lastModified := Fin 0\<rparr>"

text \<open>
  One update of \<open>update_updater\<close> seen on a single object whose stamp has been blanked, and
  a sequence of them.
\<close>

definition blank_step :: "string \<times> Partial \<Rightarrow> CanvasObject \<Rightarrow> CanvasObject" where
  "blank_step iq c =
     (if o_id c = fst iq then without_lastModified (spread c (snd iq)) else c)"

definition blank_steps :: "(string \<times> Partial) list \<Rightarrow> CanvasObject \<Rightarrow> CanvasObject" where
  "blank_steps qs c = fold blank_step qs c"

text \<open>The forward and the backward half of an update, as pairs of id and partial object.\<close>

definition forward :: "update \<Rightarrow> string \<times> Partial" where
  "forward u = (fst u, fst (snd u))"

definition backward :: "update \<Rightarrow> string \<times> Partial" where
  "backward u = (fst u, snd (snd u))"

text \<open>
  The \<open>previousState\<close> of every update in the list that addresses the given object was
  taken from that object, as \<open>updateObject\<close> takes it, and the update leaves the id alone.
\<close>

definition captured :: "update list \<Rightarrow> CanvasObject \<Rightarrow> bool" where
  "captured us obj \<longleftrightarrow>
     (\<forall>u\<in>set us. fst u = o_id obj \<longrightarrow>
        p_id (fst (snd u)) = None \<and> snd (snd u) = previousState_of (fst (snd u)) obj)"

text \<open>A clock that starts at \<open>t\<close> and advances by one with every reading.\<close>

definition clock_from :: "rat \<Rightarrow> nat \<Rightarrow> jsnum" where
  "clock_from t n = Fin (t + of_nat n)"

section \<open>Example objects and states\<close>

text \<open>
  A rectangle centred at \<open>(0, 0)\<close> and sized 100 by 100, a circle centred at \<open>(200, 0)\<close> with
  radius 50 (so width 100), and a line from \<open>(100, 100)\<close> to the origin.
\<close>

definition shape :: "string \<Rightarrow> string \<Rightarrow> rat \<Rightarrow> rat \<Rightarrow> rat \<Rightarrow> rat \<Rightarrow> CanvasObject" where
  "shape i t x y w h =
     \<lparr>o_id = i, o_type = t, o_x = Fin x, o_y = Fin y, o_width = Fin w, o_height = Fin h,
      o_x2 = None, o_y2 = None, o_zIndex = Some (Fin 0), o_fill = Some ''#ff0000'',
      o_nickname = None, o_groupedObjects = None, o_shadow = None, o_createdBy = Some ''u1'',
      o_createdAt = Fin 1000, o_lastModified = Fin 1000\<rparr>"

definition rect0 :: CanvasObject where
  "rect0 = shape ''r'' ''rectangle'' 0 0 100 100"

definition circle0 :: CanvasObject where
  "circle0 = shape ''c'' ''circle'' 200 0 100 100"

definition line0 :: CanvasObject where
  "line0 = (shape ''l'' ''line'' 100 100 0 0)\<lparr>o_x2 := Some (Fin 0), o_y2 := Some (Fin 0)\<rparr>"

text \<open>The patch \<open>{ width: w }\<close>.\<close>

definition width_to :: "rat \<Rightarrow> Partial" where
  "width_to w = no_keys\<lparr>p_width := Some (Fin w)\<rparr>"

text \<open>The patch \<open>{ height: h }\<close>.\<close>

definition height_to :: "rat \<Rightarrow> Partial" where
  "height_to h = no_keys\<lparr>p_height := Some (Fin h)\<rparr>"

text \<open>
  A signed-in client holding the given objects, with nothing selected, no history, and no
  update waiting for a render.
\<close>

definition client :: "CanvasObject list \<Rightarrow> State" where
  "client objs =
     \<lparr>objects = objs, objectsIdentity = 0, renderPending = False, objectsRef = objs,
      selectedId = None, selectedIds = [],
      commandHistory = emptyHistory, isExecutingCommand = False, currentUser = Some ''u1'',
      firestoreCalls = []\<rparr>"

text \<open>The keys of an object in the order of the record, and a snapshot that has them so.\<close>

definition all_keys :: "string list" where
  "all_keys = [''id'', ''type'', ''x'', ''y'', ''width'', ''height'', ''x2'', ''y2'', ''zIndex'',
     ''fill'', ''nickname'', ''groupedObjects'', ''shadow'', ''createdBy'', ''createdAt'',
     ''lastModified'']"

text \<open>
  The client that holds the rectangle and the circle and has called \<open>updateObject\<close> to
  widen the rectangle from 100 to 150: the command is in the history, the local object
  is changed, React has rendered, and the store call is issued but not settled.
\<close>

definition resizing :: State where
  "resizing =
     rendered
       (fst (updateObject (render (client [rect0, circle0])) ''r'' (width_to 150) (Fin 2000)
               (client [rect0, circle0])))"

text \<open>
  The client that selected the rectangle and the circle and, after React has rendered,
  added a line, saw that write resolve and React render, and has called \<open>undo\<close>: React has
  rendered again and the store call of the undo is not settled.
\<close>

definition line_added :: State where
  "line_added =
     rendered
       (fst (settle (AwaitCommit False) True (Fin 2001)
               (fst (addObject (render (selectMultiple [''r'', ''c''] (client [rect0, circle0])))
                       line0 ''n'' (Fin 2000)
                       (rendered (selectMultiple [''r'', ''c''] (client [rect0, circle0])))))))"

definition undoing :: State where
  "undoing = rendered (fst (undo (Fin 2002) line_added))"

text \<open>
  The client that holds the rectangle and the circle, called \<open>deleteObject\<close> for the
  rectangle, and saw that write resolve and React render.
\<close>

definition rect_deleted :: State where
  "rect_deleted =
     rendered
       (fst (settle (AwaitCommit False) True (Fin 2001)
               (fst (deleteObject (render (client [rect0, circle0])) ''r'' (Fin 2000)
                       (client [rect0, circle0])))))"

section \<open>Facts about the command history\<close>

lemma slice0_take: "- 1 \<le> e - 1 \<Longrightarrow> slice0 xs e = take (nat e) xs"
  by (simp add: slice0_def)

lemma drop_redo_inv:
  "index_inv h \<Longrightarrow> history (drop_redo h) = take (nat (currentIndex h + 1)) (history h)
     \<and> currentIndex (drop_redo h) = currentIndex h
     \<and> int (length (history (drop_redo h))) = currentIndex h + 1"
  by (auto simp: index_inv_def drop_redo_def slice0_def)

lemma executeCommand_history_eq:
  assumes "index_inv h"
  shows "history (executeCommand_history c h) =
           (let xs = take (nat (currentIndex h + 1)) (history h) @ [c]
            in if int (length xs) > maxHistorySize then tl xs else xs)"
    and "currentIndex (executeCommand_history c h) = int (length (history (executeCommand_history c h))) - 1"
    and "0 \<le> currentIndex (executeCommand_history c h)"
  using drop_redo_inv[OF assms]
  by (auto simp: executeCommand_history_def push_command_def over_limit_def shift_oldest_def Let_def maxHistorySize_def)

lemma executeCommand_history_inv:
  assumes "history_inv h"
  shows "history_inv (executeCommand_history c h)"
proof -
  have i: "index_inv h" using assms by (simp add: history_inv_def)
  show ?thesis
    using drop_redo_inv[OF i] assms
    by (auto simp: history_inv_def index_inv_def executeCommand_history_def push_command_def
          over_limit_def shift_oldest_def Let_def maxHistorySize_def)
qed

lemma do_call_inv: "history_inv h \<Longrightarrow> history_inv (do_call c h)"
proof (cases c)
  case (Commit x ok)
  assume "history_inv h"
  then show ?thesis using Commit by (simp add: executeCommand_history_inv)
next
  case (Undo ok)
  assume "history_inv h"
  then show ?thesis using Undo
    by (auto simp: history_inv_def index_inv_def undo_target_def undo_done_def canUndo_def
        split: option.splits)
next
  case (Redo ok)
  assume "history_inv h"
  then show ?thesis using Redo
    by (auto simp: history_inv_def index_inv_def redo_advance_def canRedo_def)
next
  case Clear
  then show ?thesis by (simp add: history_inv_def index_inv_def clear_def maxHistorySize_def)
qed

lemma history_calls_inv: "history_inv h \<Longrightarrow> history_inv (history_calls cs h)"
  unfolding history_calls_def
  by (induction cs arbitrary: h) (simp_all add: do_call_inv)

lemma emptyHistory_inv: "history_inv emptyHistory"
  by (simp add: history_inv_def index_inv_def emptyHistory_def maxHistorySize_def)

lemma set_slice0: "set (slice0 xs e) \<subseteq> set xs"
  by (auto simp: slice0_def dest: in_set_takeD)

lemma set_executeCommand_history:
  "set (history (executeCommand_history c h)) \<subseteq> insert c (set (history h))"
proof -
  let ?h2 = "push_command c (drop_redo h)"
  have d: "set (history (drop_redo h)) \<subseteq> set (history h)"
    using set_slice0[of "history h"] by (auto simp: drop_redo_def)
  have p: "set (history ?h2) \<subseteq> insert c (set (history h))"
    using d by (auto simp: push_command_def)
  have t: "set (history (shift_oldest ?h2)) \<subseteq> set (history ?h2)"
    by (cases "history ?h2") (auto simp: shift_oldest_def)
  show ?thesis
    using p t by (auto simp: executeCommand_history_def Let_def)
qed

lemma set_do_call:
  "set (history (do_call m h)) \<subseteq> set (history h) \<union> set_option (committed m)"
  using set_executeCommand_history[of _ h]
  by (cases m) (auto simp: undo_done_def redo_advance_def clear_def split: option.splits)

lemma set_history_calls:
  "set (history (history_calls ms h)) \<subseteq> set (history h) \<union> (\<Union>m\<in>set ms. set_option (committed m))"
  unfolding history_calls_def
proof (induction ms arbitrary: h)
  case Nil
  then show ?case by simp
next
  case (Cons m ms)
  show ?case using Cons.IH[of "do_call m h"] set_do_call[of m h] by auto
qed

lemma undo_target_in_history: "undo_target h = Some e \<Longrightarrow> e \<in> set (history h)"
  by (auto simp: undo_target_def at_index_def split: if_splits)

lemma eviction_when_full:
  assumes inv: "history_inv h" and over: "over_limit (push_command c (drop_redo h))"
  shows "history h \<noteq> []"
    and "history (executeCommand_history c h) = tl (history h) @ [c]"
    and "currentIndex (executeCommand_history c h) = currentIndex h"
proof -
  have idx: "index_inv h" using inv by (simp add: history_inv_def)
  note d = drop_redo_inv[OF idx]
  have "int (length (history h)) \<le> 100"
    using inv by (simp add: history_inv_def maxHistorySize_def)
  moreover have "currentIndex h < int (length (history h))"
    using idx by (simp add: index_inv_def)
  moreover have "int (length (history (drop_redo h))) + 1 > 100"
    using over by (simp add: over_limit_def push_command_def maxHistorySize_def)
  then have "currentIndex h + 1 \<ge> 100"
    using d by linarith
  ultimately have len: "length (history h) = 100" and full: "currentIndex h = 99"
    by linarith+
  show ne: "history h \<noteq> []" using len by auto
  have keep: "history (drop_redo h) = history h"
    using d full len by simp
  show "history (executeCommand_history c h) = tl (history h) @ [c]"
    using over keep ne
    by (simp add: executeCommand_history_def Let_def push_command_def shift_oldest_def)
  show "currentIndex (executeCommand_history c h) = currentIndex h"
    using over d
    by (simp add: executeCommand_history_def Let_def push_command_def shift_oldest_def)
qed

lemma never_back:
  assumes "e \<notin> set (history h)" and "\<forall>m\<in>set later. committed m \<noteq> Some e"
  shows "e \<notin> set (history (history_calls later h))"
    and "undo_target (history_calls later h) \<noteq> Some e"
proof -
  have "set_option (committed m) \<subseteq> - {e}" if "m \<in> set later" for m
    using assms(2) that by (cases "committed m") auto
  then show "e \<notin> set (history (history_calls later h))"
    using set_history_calls[of later h] assms(1) by blast
  then show "undo_target (history_calls later h) \<noteq> Some e"
    using undo_target_in_history[of "history_calls later h" e] by auto
qed

lemma commits_from_empty:
  "length xs \<le> 100 \<Longrightarrow>
   history_calls (map (\<lambda>x. Commit x True) xs) emptyHistory
     = \<lparr>history = xs, currentIndex = int (length xs) - 1\<rparr>"
proof (induction xs rule: rev_induct)
  case Nil
  then show ?case by (simp add: history_calls_def emptyHistory_def)
next
  case (snoc x xs)
  then have "history_calls (map (\<lambda>x. Commit x True) xs) emptyHistory
     = \<lparr>history = xs, currentIndex = int (length xs) - 1\<rparr>" by simp
  then show ?case using snoc.prems
    by (simp add: history_calls_def executeCommand_history_def drop_redo_def push_command_def
        over_limit_def maxHistorySize_def Let_def)
qed

lemma executeCommand_history_tip:
  assumes "index_inv h"
  shows "currentIndex (executeCommand_history c h)
           = int (length (history (executeCommand_history c h))) - 1"
    and "0 \<le> currentIndex (executeCommand_history c h)"
    and "history (executeCommand_history c h) \<noteq> []"
    and "last (history (executeCommand_history c h)) = c"
proof -
  note d = drop_redo_inv[OF assms]
  let ?h2 = "push_command c (drop_redo h)"
  have dl: "int (length (history (drop_redo h))) = currentIndex h + 1"
    and dc: "currentIndex (drop_redo h) = currentIndex h"
    using d by blast+
  have len2: "int (length (history ?h2)) = currentIndex h + 2"
    and cur2: "currentIndex ?h2 = currentIndex h + 1"
    and last2: "last (history ?h2) = c"
    using dl dc by (simp_all add: push_command_def)
  have lo: "- 1 \<le> currentIndex h" using assms by (simp add: index_inv_def)
  have tl2: "int (length (tl (history ?h2))) = currentIndex h + 1"
    using len2 lo by (cases "history ?h2") auto
  show "currentIndex (executeCommand_history c h)
           = int (length (history (executeCommand_history c h))) - 1"
    using len2 cur2 tl2 by (simp add: executeCommand_history_def Let_def shift_oldest_def del: length_tl)
  show "0 \<le> currentIndex (executeCommand_history c h)"
    using len2 cur2 lo
    by (simp add: executeCommand_history_def Let_def shift_oldest_def over_limit_def
        maxHistorySize_def)
  have two: "length (history ?h2) \<ge> 2" if "over_limit ?h2"
    using that by (simp add: over_limit_def maxHistorySize_def)
  show "history (executeCommand_history c h) \<noteq> []"
  proof (cases "over_limit ?h2")
    case True
    with two have "tl (history ?h2) \<noteq> []"
      by (cases "history ?h2") auto
    with True show ?thesis by (simp add: executeCommand_history_def Let_def shift_oldest_def)
  next
    case False
    then show ?thesis by (simp add: executeCommand_history_def Let_def push_command_def)
  qed
  show "last (history (executeCommand_history c h)) = c"
  proof (cases "over_limit ?h2")
    case True
    with two have "tl (history ?h2) \<noteq> []"
      by (cases "history ?h2") auto
    then have "last (tl (history ?h2)) = c"
      using last2 by (simp add: last_tl)
    with True show ?thesis by (simp add: executeCommand_history_def Let_def shift_oldest_def)
  next
    case False
    then show ?thesis using last2 by (simp add: executeCommand_history_def Let_def)
  qed
qed

lemma at_tip_do_call: "at_tip h \<Longrightarrow> \<not> is_undo m \<Longrightarrow> at_tip (do_call m h)"
proof (cases m)
  case (Commit c ok)
  assume "at_tip h"
  then have i: "index_inv h" by (simp add: at_tip_def)
  show ?thesis
    using executeCommand_history_tip(1,2)[OF i, of c] Commit
    by (simp add: at_tip_def index_inv_def)
next
  case (Undo ok)
  assume "\<not> is_undo m"
  with Undo show ?thesis by simp
next
  case (Redo ok)
  assume "at_tip h"
  with Redo show ?thesis by (simp add: at_tip_def canRedo_def)
next
  case Clear
  then show ?thesis by (simp add: at_tip_def index_inv_def clear_def)
qed

lemma at_tip_history_calls:
  "at_tip h \<Longrightarrow> \<forall>m\<in>set ms. \<not> is_undo m \<Longrightarrow> at_tip (history_calls ms h)"
  unfolding history_calls_def
  by (induction ms arbitrary: h) (simp_all add: at_tip_do_call)

section \<open>Claims about the command history\<close>

text \<open>
  Claim C4.  Start from the empty history and make any sequence of calls to
  \<open>executeCommand\<close>, \<open>undo\<close>, \<open>redo\<close> and \<open>clear\<close>, each run to completion, whatever
  the commands' own \<open>execute()\<close> and \<open>undo()\<close> do.  Then the index is at least \<open>-1\<close> and
  below the length (so it is \<open>-1\<close> when the history is empty), and the length is at most
  100.  When a further \<open>executeCommand\<close> finds the pushed array over the limit, the
  oldest entry is the one removed, the new command is appended, and the index ends
  where it was (advanced, then decremented).  The evicted entry, when it has no equal
  twin left in the history and is not committed again, is in the history of no later
  state, so no later \<open>undo()\<close> reads it.
\<close>

theorem history_index_bounds_and_eviction:
  "(let h = history_calls calls emptyHistory in
      - 1 \<le> currentIndex h \<and> currentIndex h < int (length (history h)) \<and>
      (length (history h) = 0 \<longrightarrow> currentIndex h = - 1) \<and>
      int (length (history h)) \<le> 100 \<and>
      (over_limit (push_command c (drop_redo h)) \<longrightarrow>
         (let h' = executeCommand_history c h; oldest = hd (history h) in
            history h \<noteq> [] \<and> history h' = tl (history h) @ [c] \<and>
            currentIndex h' = currentIndex h \<and>
            (oldest \<notin> set (tl (history h)) \<and> oldest \<noteq> c \<and>
             (\<forall>m\<in>set later. committed m \<noteq> Some oldest) \<longrightarrow>
               oldest \<notin> set (history (history_calls later h')) \<and>
               undo_target (history_calls later h') \<noteq> Some oldest))))"
proof -
  define h where "h = history_calls calls (emptyHistory :: 'a CommandHistory)"
  define h' where "h' = executeCommand_history c h"
  have inv: "history_inv h"
    unfolding h_def by (rule history_calls_inv[OF emptyHistory_inv])
  have bounds: "- 1 \<le> currentIndex h \<and> currentIndex h < int (length (history h)) \<and>
      (length (history h) = 0 \<longrightarrow> currentIndex h = - 1) \<and> int (length (history h)) \<le> 100"
    using inv by (auto simp: history_inv_def index_inv_def maxHistorySize_def)
  have evict: "history h \<noteq> [] \<and> history h' = tl (history h) @ [c] \<and>
       currentIndex h' = currentIndex h \<and>
       (hd (history h) \<notin> set (tl (history h)) \<and> hd (history h) \<noteq> c \<and>
        (\<forall>m\<in>set later. committed m \<noteq> Some (hd (history h))) \<longrightarrow>
          hd (history h) \<notin> set (history (history_calls later h')) \<and>
          undo_target (history_calls later h') \<noteq> Some (hd (history h)))"
    if over: "over_limit (push_command c (drop_redo h))"
  proof -
    note e = eviction_when_full[OF inv over, folded h'_def]
    have "hd (history h) \<notin> set (history (history_calls later h')) \<and>
          undo_target (history_calls later h') \<noteq> Some (hd (history h))"
      if a: "hd (history h) \<notin> set (tl (history h))" "hd (history h) \<noteq> c"
        and m: "\<forall>m\<in>set later. committed m \<noteq> Some (hd (history h))"
    proof -
      have "hd (history h) \<notin> set (history h')"
        using a e(2) by simp
      then show ?thesis using never_back[OF _ m] by blast
    qed
    then show ?thesis using e by blast
  qed
  have "- 1 \<le> currentIndex h \<and> currentIndex h < int (length (history h)) \<and>
      (length (history h) = 0 \<longrightarrow> currentIndex h = - 1) \<and>
      int (length (history h)) \<le> 100 \<and>
      (over_limit (push_command c (drop_redo h)) \<longrightarrow>
            history h \<noteq> [] \<and> history h' = tl (history h) @ [c] \<and>
            currentIndex h' = currentIndex h \<and>
            (hd (history h) \<notin> set (tl (history h)) \<and> hd (history h) \<noteq> c \<and>
             (\<forall>m\<in>set later. committed m \<noteq> Some (hd (history h))) \<longrightarrow>
               hd (history h) \<notin> set (history (history_calls later h')) \<and>
               undo_target (history_calls later h') \<noteq> Some (hd (history h))))"
    using bounds evict by blast
  then show ?thesis
    unfolding Let_def h_def h'_def .
qed

theorem history_index_bounds_and_eviction_witness:
  "over_limit (push_command (100::nat)
       (drop_redo (history_calls (map (\<lambda>n. Commit n True) [0..<100]) emptyHistory))) \<and>
   history (executeCommand_history (100::nat)
       (history_calls (map (\<lambda>n. Commit n True) [0..<100]) emptyHistory)) = [1..<101] \<and>
   undo_target (history_calls [Undo True, Commit 200 False, Undo True, Redo True]
     (executeCommand_history (100::nat)
       (history_calls (map (\<lambda>n. Commit n True) [0..<100]) emptyHistory))) \<noteq> Some 0"
proof -
  let ?calls = "map (\<lambda>n. Commit n True) [0..<100] :: nat history_call list"
  let ?later = "[Undo True, Commit 200 False, Undo True, Redo True] :: nat history_call list"
  let ?h = "history_calls ?calls emptyHistory"
  have h: "?h = \<lparr>history = [0..<100], currentIndex = 99\<rparr>"
    using commits_from_empty[of "[0..<100]"] by simp
  have over: "over_limit (push_command (100::nat) (drop_redo ?h))"
    unfolding h by (simp add: over_limit_def push_command_def drop_redo_def maxHistorySize_def)
  have hd0: "hd (history ?h) = 0"
    unfolding h by (simp add: hd_upt)
  have tl0: "tl (history ?h) = [1..<100]"
    unfolding h by (simp add: tl_upt)
  have tl1: "[1..<100] @ [100] = [1..<101::nat]"
    using upt_Suc_append[of 1 100] by simp
  have fresh: "0 \<notin> set [1..<100::nat]" by simp
  have later: "\<forall>m\<in>set ?later. committed m \<noteq> Some (0::nat)" by simp
  have neq: "(0::nat) \<noteq> 100" by simp
  note main = history_index_bounds_and_eviction[of ?calls 100 ?later, unfolded Let_def hd0 tl0 tl1]
  from main over have "history (executeCommand_history 100 ?h) = [1..<101]" by blast
  moreover from main over fresh later neq
  have "undo_target (history_calls ?later (executeCommand_history 100 ?h)) \<noteq> Some 0"
    by blast
  ultimately show ?thesis using over by blast
qed

text \<open>
  Claim C5.  From any history whose index is between \<open>-1\<close> and the last position,
  \<open>executeCommand\<close> keeps the entries up to the index, appends the new command (and
  shifts the oldest entry out when over the limit); everything after the index is gone.
  \<open>canRedo()\<close> is false right after the commit and stays false through any later calls
  that are not \<open>undo\<close>.
\<close>

theorem commit_discards_redo:
  "index_inv h \<Longrightarrow>
     (let h' = executeCommand_history c h;
          kept = take (nat (currentIndex h + 1)) (history h) @ [c]
      in history h' = (if int (length kept) > maxHistorySize then tl kept else kept) \<and>
         \<not> canRedo h' \<and>
         ((\<forall>m\<in>set later. \<not> is_undo m) \<longrightarrow> \<not> canRedo (history_calls later h')))"
proof -
  assume i: "index_inv h"
  have tip: "at_tip (executeCommand_history c h)"
    using executeCommand_history_tip(1,2)[OF i, of c] by (simp add: at_tip_def index_inv_def)
  have no: "\<not> canRedo k" if "at_tip k" for k :: "'a CommandHistory"
    using that by (simp add: at_tip_def canRedo_def)
  have "\<not> canRedo (history_calls later (executeCommand_history c h))"
    if "\<forall>m\<in>set later. \<not> is_undo m"
    using at_tip_history_calls[OF tip that] no by blast
  then show ?thesis
    using executeCommand_history_eq(1)[OF i, of c] no[OF tip] by (simp add: Let_def)
qed

theorem commit_discards_redo_witness:
  "index_inv \<lparr>history = [1, 2, 3::nat], currentIndex = 0\<rparr> \<and>
   canRedo \<lparr>history = [1, 2, 3::nat], currentIndex = 0\<rparr> \<and>
   history (executeCommand_history 9 \<lparr>history = [1, 2, 3::nat], currentIndex = 0\<rparr>) = [1, 9] \<and>
   \<not> canRedo (executeCommand_history 9 \<lparr>history = [1, 2, 3::nat], currentIndex = 0\<rparr>) \<and>
   \<not> canRedo (history_calls [Redo True, Commit 7 False, Clear, Redo True]
        (executeCommand_history 9 \<lparr>history = [1, 2, 3::nat], currentIndex = 0\<rparr>))"
proof -
  let ?h = "\<lparr>history = [1, 2, 3::nat], currentIndex = 0\<rparr>"
  let ?later = "[Redo True, Commit 7 False, Clear, Redo True] :: nat history_call list"
  have i: "index_inv ?h" by (simp add: index_inv_def)
  have r: "canRedo ?h" by (simp add: canRedo_def)
  have l: "\<forall>m\<in>set ?later. \<not> is_undo m" by simp
  have k: "take (nat (currentIndex ?h + 1)) (history ?h) @ [9] = [1, 9]" by simp
  have s: "\<not> int (length [1, 9::nat]) > maxHistorySize" by (simp add: maxHistorySize_def)
  show ?thesis
    using commit_discards_redo[OF i, of 9 ?later, unfolded Let_def k] i r l s by simp
qed

section \<open>Facts about rounding\<close>

lemma powi_bitlen:
  assumes "0 < x"
  shows "(2::rat) powi (bitlen x - 1) \<le> of_int x" "of_int x < (2::rat) powi (bitlen x)"
proof -
  from bitlen_bounds[OF assms] have a: "2 ^ nat (bitlen x - 1) \<le> x" and b: "x < 2 ^ nat (bitlen x)"
    by auto
  have p: "bitlen x \<ge> 1" using assms by (auto simp: bitlen_alt_def)
  have "(2::rat) powi (bitlen x - 1) = 2 ^ nat (bitlen x - 1)"
    using p by (simp add: power_int_def)
  also have "\<dots> = of_int (2 ^ nat (bitlen x - 1))" by simp
  also have "\<dots> \<le> of_int x" using a by (simp only: of_int_le_iff)
  finally show "(2::rat) powi (bitlen x - 1) \<le> of_int x" .
  have "(of_int x :: rat) < of_int (2 ^ nat (bitlen x))" using b by (simp only: of_int_less_iff)
  also have "\<dots> = 2 ^ nat (bitlen x)" by simp
  also have "\<dots> = (2::rat) powi (bitlen x)" using p by (simp add: power_int_def)
  finally show "of_int x < (2::rat) powi (bitlen x)" .
qed

lemma ilog2_bounds:
  assumes "0 < r"
  shows "2 powi (ilog2 r) \<le> r" "r < 2 powi (ilog2 r + 1)"
proof -
  obtain n d where q: "quotient_of r = (n, d)" by (cases "quotient_of r") auto
  then have d: "0 < d" and r: "r = of_int n / of_int d"
    by (simp_all add: quotient_of_denom_pos quotient_of_div)
  have n: "0 < n" using assms d r by (simp add: zero_less_divide_iff)
  note bn = powi_bitlen[OF n] and bd = powi_bitlen[OF d]
  let ?e = "bitlen n - bitlen d"
  have dpos: "(0::rat) < of_int d" using d by simp
  have "r < 2 powi (bitlen n) / 2 powi (bitlen d - 1)"
  proof -
    have "r < 2 powi (bitlen n) / of_int d"
      unfolding r using bn(2) dpos by (simp add: divide_strict_right_mono)
    also have "\<dots> \<le> 2 powi (bitlen n) / 2 powi (bitlen d - 1)"
    proof (intro divide_left_mono)
      show "2 powi (bitlen d - 1) \<le> (of_int d :: rat)" by (rule bd(1))
      show "(0::rat) \<le> 2 powi bitlen n" by simp
      show "(0::rat) < of_int d * 2 powi (bitlen d - 1)" using dpos by simp
    qed
    finally show ?thesis .
  qed
  then have up: "r < 2 powi (?e + 1)"
    by (simp add: power_int_diff power_int_add)
  have "(2::rat) powi (bitlen n - 1) / 2 powi (bitlen d) < r"
  proof -
    have "(2::rat) powi (bitlen n - 1) / 2 powi (bitlen d) < 2 powi (bitlen n - 1) / of_int d"
      using bd(2) dpos by (intro divide_strict_left_mono) simp_all
    also have "\<dots> \<le> r"
      unfolding r using bn(1) dpos by (simp add: divide_right_mono)
    finally show ?thesis .
  qed
  then have lo: "2 powi (?e - 1) < r"
    by (simp add: power_int_diff)
  show "2 powi (ilog2 r) \<le> r"
    using lo q by (simp add: ilog2_def Let_def)
  show "r < 2 powi (ilog2 r + 1)"
    using up q by (simp add: ilog2_def Let_def)
qed

lemma ilog2_unique:
  assumes "2 powi e \<le> r" "r < 2 powi (e + 1)"
  shows "ilog2 r = e"
proof -
  have pos: "0 < r" using assms(1) by (rule less_le_trans[rotated]) simp
  note b = ilog2_bounds[OF pos]
  have less: "m < n" if "(2::rat) powi m < 2 powi n" for m n :: int
  proof (rule ccontr)
    assume "\<not> m < n"
    then have "(2::rat) powi n \<le> 2 powi m" by (intro power_int_increasing) simp_all
    with that show False by simp
  qed
  have "(2::rat) powi e < 2 powi (ilog2 r + 1)" using assms(1) b(2) by (rule le_less_trans)
  then have "e < ilog2 r + 1" by (rule less)
  moreover have "(2::rat) powi (ilog2 r) < 2 powi (e + 1)" using b(1) assms(2) by (rule le_less_trans)
  then have "ilog2 r < e + 1" by (rule less)
  ultimately show ?thesis by simp
qed

lemma round_even_of_int [simp]: "round_even (of_int n) = n"
  by (simp add: round_even_def)

lemma to_double_of_int:
  assumes "\<bar>n\<bar> \<le> 2 ^ 53"
  shows "to_double (of_int n) = Fin (of_int n)"
proof (cases "n = 0")
  case True
  then show ?thesis by (simp add: to_double_def)
next
  case False
  let ?r = "of_int n :: rat"
  let ?e = "ilog2 \<bar>?r\<bar>"
  let ?q = "max (?e - 52) (- 1074)"
  have pos: "0 < \<bar>?r\<bar>" using False by simp
  note b = ilog2_bounds[OF pos]
  have le: "m \<le> k" if "(2::rat) powi m \<le> 2 powi k" for m k :: int
  proof (rule ccontr)
    assume "\<not> m \<le> k"
    then have "(2::rat) powi k < 2 powi m" by (intro power_int_strict_increasing) simp_all
    with that show False by simp
  qed
  have r53: "\<bar>?r\<bar> \<le> 2 powi 53"
  proof -
    have "\<bar>?r\<bar> = of_int \<bar>n\<bar>" by simp
    also have "\<dots> \<le> of_int (2 ^ 53)" using assms by (simp only: of_int_le_iff)
    finally show ?thesis by simp
  qed
  have e53: "?e \<le> 53" using b(1) r53 by (intro le) (rule order_trans)
  have q1: "?q \<le> 1" using e53 by simp
  have int: "\<exists>k. ?r / 2 powi ?q = of_int k"
  proof (cases "?q \<le> 0")
    case True
    then have "?r / 2 powi ?q = ?r * 2 ^ nat (- ?q)"
      by (simp add: power_int_def field_simps flip: power_inverse)
    also have "\<dots> = of_int (n * 2 ^ nat (- ?q))" by simp
    finally show ?thesis by blast
  next
    case False
    with q1 have q: "?q = 1" by linarith
    then have "?e = 53" by (simp add: max_def split: if_splits)
    with b(1) r53 have "\<bar>?r\<bar> = 2 powi 53" by simp
    then have "(of_int \<bar>n\<bar> :: rat) = of_int (2 ^ 53)" by simp
    then have "\<bar>n\<bar> = 2 ^ 53" by (simp only: of_int_eq_iff)
    then have "n = 2 ^ 53 \<or> n = - (2 ^ 53)" by linarith
    then have "?r / 2 powi ?q = of_int (n div 2)"
      unfolding q by auto
    then show ?thesis by blast
  qed
  then obtain k where k: "?r / 2 powi ?q = of_int k" by blast
  have v: "of_int (round_even (?r / 2 powi ?q)) * 2 powi ?q = ?r"
    unfolding k round_even_of_int using k[symmetric] by simp
  have small: "\<not> (2::rat) powi 1024 \<le> \<bar>?r\<bar>"
  proof
    assume "(2::rat) powi 1024 \<le> \<bar>?r\<bar>"
    from this r53 have "(2::rat) powi 1024 \<le> 2 powi 53" by (rule order_trans)
    then have "(1024::int) \<le> 53" by (rule le)
    then show False by simp
  qed
  show ?thesis
    using False small by (simp add: to_double_def Let_def v del: power_int_numeral)
qed

text \<open>
  Integers of magnitude up to 2 to the power 53 are doubles, so sums and halves that are
  such integers are exact; the next integer is not a double and rounds down to it.
\<close>

lemma to_double_numeral [simp]:
  "numeral k \<le> (9007199254740992::int) \<Longrightarrow> to_double (numeral k) = Fin (numeral k)"
  using to_double_of_int [of "numeral k"] by simp

lemma to_double_neg_numeral [simp]:
  "numeral k \<le> (9007199254740992::int) \<Longrightarrow> to_double (- numeral k) = Fin (- numeral k)"
  using to_double_of_int [of "- numeral k"] by simp

lemma to_double_0 [simp]: "to_double 0 = Fin 0"
  by (simp add: to_double_def)

lemma to_double_1 [simp]: "to_double 1 = Fin 1"
  using to_double_of_int [of 1] by simp

lemma to_double_above_safe:
  "to_double 9007199254740993 = Fin 9007199254740992"
proof -
  have e: "ilog2 \<bar>9007199254740993\<bar> = 53"
    by (rule ilog2_unique) simp_all
  have f: "\<lfloor>9007199254740993 / 2 :: rat\<rfloor> = 4503599627370496"
    by (rule floor_unique) simp_all
  have r: "round_even (9007199254740993 / 2) = 4503599627370496"
    unfolding round_even_def Let_def f by simp
  show ?thesis
    unfolding to_double_def Let_def e by (simp add: r)
qed

section \<open>Facts about spreads, updaters and commands\<close>

lemma spread_key_previous_self: "spread_key a (previous_key k a) = a"
  by (simp add: spread_key_def previous_key_def split: option.splits)

lemma spread_key_previous: 
  "spread_key (spread_key a k) (previous_key k b) = spread_key a (previous_key k b)"
  by (simp add: spread_key_def previous_key_def split: option.splits)

lemma spread_previous_self: "spread obj (previousState_of u obj) = obj"
  by (simp add: spread_def previousState_of_def spread_key_previous_self)

lemma spread_spread_previous:
  "spread (spread c u) (previousState_of u obj) = spread c (previousState_of u obj)"
  by (simp add: spread_def previousState_of_def spread_key_previous)

lemma spread_lastModified:
  "(spread (c\<lparr>o_lastModified := t\<rparr>) p)\<lparr>o_lastModified := t'\<rparr>
     = (spread c p)\<lparr>o_lastModified := t'\<rparr>"
  by (simp add: spread_def)

lemma o_id_spread: "p_id u = None \<Longrightarrow> o_id (spread c u) = o_id c"
  by (simp add: spread_def spread_key_def)

lemma p_id_previousState_of: "p_id u = None \<Longrightarrow> p_id (previousState_of u obj) = None"
  by (simp add: previousState_of_def previous_key_def)

lemma objects_updateInFirestore [simp]:
  "objects (updateInFirestore now i u st) = objects st"
  "objectsRef (updateInFirestore now i u st) = objectsRef st"
  "objectsIdentity (updateInFirestore now i u st) = objectsIdentity st"
  "renderPending (updateInFirestore now i u st) = renderPending st"
  by (simp_all add: updateInFirestore_def call_store_def split: option.splits)

lemma objects_call_store [simp]:
  "objects (addToFirestore obj st) = objects st"
  "objectsRef (addToFirestore obj st) = objectsRef st"
  "objects (removeFromFirestore i st) = objects st"
  "objectsRef (removeFromFirestore i st) = objectsRef st"
  by (simp_all add: addToFirestore_def removeFromFirestore_def call_store_def)

lemma objects_updateObjectsState [simp]:
  "objects (updateObjectsState f st) = (case f (objects st) of None \<Rightarrow> objects st | Some next \<Rightarrow> next)"
  by (simp add: updateObjectsState_def split: option.splits)

lemma objects_rendered [simp]: "objects (rendered st) = objects st"
  by (simp add: rendered_def)

lemma objects_update_execute [simp]:
  "objects (update_execute now (i, u, p) st) = update_updater now i u (objects st)"
  by (simp add: update_execute_def)

lemma objects_update_undo [simp]:
  "objects (update_undo now (i, u, p) st) = update_updater now i p (objects st)"
  by (simp add: update_undo_def)

lemma find_id_None_iff: "find_id i objs = None \<longleftrightarrow> i \<notin> o_id ` set objs"
  by (auto simp: find_id_def find_None_iff)

lemma add_fresh:
  "find_id (o_id object) objs = None \<Longrightarrow> add_updater object objs = Some (objs @ [object])"
  by (simp add: add_updater_def)

lemma remove_added_fresh:
  "find_id (o_id object) objs = None \<Longrightarrow> remove_updater (o_id object) (objs @ [object]) = objs"
proof -
  assume "find_id (o_id object) objs = None"
  then have n: "\<forall>obj\<in>set objs. o_id obj \<noteq> o_id object"
    by (auto simp: find_id_None_iff image_iff)
  then have "filter (\<lambda>obj. o_id obj \<noteq> o_id object) objs = objs"
    by (simp add: filter_id_conv)
  then show ?thesis
    by (simp add: remove_updater_def)
qed

lemma add_remove:
  "add_updater object (remove_updater (o_id object) objs)
     = Some (remove_updater (o_id object) objs @ [object])"
  by (auto simp: add_updater_def remove_updater_def find_id_None_iff)

lemma mset_remove_present:
  assumes "object \<in> set objs" and "distinct (map o_id objs)"
  shows "mset (remove_updater (o_id object) objs @ [object]) = mset objs"
proof -
  have d: "distinct objs" using assms(2) by (simp add: distinct_map)
  have "filter (\<lambda>obj. o_id obj = o_id object) objs = [object]"
  proof -
    have "filter (\<lambda>obj. o_id obj = o_id object) objs = filter (\<lambda>obj. obj = object) objs"
      using assms by (intro filter_cong refl) (auto simp: distinct_map inj_on_def)
    also have "\<dots> = [object]"
      using assms(1) d by (induction objs) (auto simp: filter_empty_conv)
    finally show ?thesis .
  qed
  then have one: "filter_mset (\<lambda>obj. o_id obj = o_id object) (mset objs) = {#object#}"
    by (simp flip: mset_filter)
  have "mset objs = filter_mset (\<lambda>obj. o_id obj = o_id object) (mset objs)
                    + filter_mset (\<lambda>obj. \<not> o_id obj = o_id object) (mset objs)"
    by (rule multiset_partition)
  then have "mset objs = {#object#} + filter_mset (\<lambda>obj. o_id obj \<noteq> o_id object) (mset objs)"
    by (simp only: one)
  then show ?thesis by (simp add: remove_updater_def)
qed

lemma update_then_undo:
  assumes "p_id u = None" and "distinct (map o_id objs)" and "find_id i objs = Some existing"
  shows "update_updater t2 i (previousState_of u existing) (update_updater t1 i u objs)
           = map (\<lambda>obj. if o_id obj = i then obj\<lparr>o_lastModified := t2\<rparr> else obj) objs"
proof -
  have ex: "existing \<in> set objs" "o_id existing = i"
    using assms(3) by (auto simp: find_id_def find_Some_iff)
  have same: "obj = existing" if "obj \<in> set objs" "o_id obj = i" for obj
    using that ex assms(2) by (auto simp: distinct_map inj_on_def)
  show ?thesis
    unfolding update_updater_def map_map
  proof (rule map_cong[OF refl])
    fix obj assume m: "obj \<in> set objs"
    show "((\<lambda>obj. if o_id obj = i
             then (spread obj (previousState_of u existing))\<lparr>o_lastModified := t2\<rparr> else obj) \<circ>
           (\<lambda>obj. if o_id obj = i then (spread obj u)\<lparr>o_lastModified := t1\<rparr> else obj)) obj
          = (if o_id obj = i then obj\<lparr>o_lastModified := t2\<rparr> else obj)"
    proof (cases "o_id obj = i")
      case True
      then have e: "obj = existing" using same m by blast
      have "o_id ((spread obj u)\<lparr>o_lastModified := t1\<rparr>) = i"
        using True assms(1) by (simp add: o_id_spread)
      then show ?thesis
        using True e
        by (simp add: spread_lastModified spread_spread_previous spread_previous_self)
    next
      case False
      then show ?thesis by simp
    qed
  qed
qed

lemma spread_key_thrice:
  "spread_key (spread_key (spread_key a p) q) p = spread_key (spread_key a q) p"
  by (cases p; cases q) (simp_all add: spread_key_def)

lemma wl_spread_wl:
  "without_lastModified (spread (without_lastModified c) q) = without_lastModified (spread c q)"
  by (simp add: without_lastModified_def spread_def)

lemma wl_spread_stamp:
  "without_lastModified ((spread c q)\<lparr>o_lastModified := t\<rparr>) = without_lastModified (spread c q)"
  by (simp add: without_lastModified_def)

lemma o_id_wl [simp]: "o_id (without_lastModified c) = o_id c"
  by (simp add: without_lastModified_def)

lemma wl_spread_through:
  "without_lastModified (spread (spread (without_lastModified (spread a p)) q) p)
     = without_lastModified (spread (spread a q) p)"
  by (simp add: without_lastModified_def spread_def spread_key_thrice)

lemma wl_spread_cong:
  assumes "without_lastModified (spread a p) = without_lastModified (spread b p)"
  shows "without_lastModified (spread (spread a q) p) = without_lastModified (spread (spread b q) p)"
proof -
  have "without_lastModified (spread (spread a q) p)
      = without_lastModified (spread (spread (without_lastModified (spread a p)) q) p)"
    by (simp only: wl_spread_through)
  also have "\<dots> = without_lastModified (spread (spread (without_lastModified (spread b p)) q) p)"
    by (simp only: assms)
  also have "\<dots> = without_lastModified (spread (spread b q) p)"
    by (simp only: wl_spread_through)
  finally show ?thesis .
qed

lemma wl_update_updater:
  "map without_lastModified (update_updater t i q objs)
     = map (blank_step (i, q)) (map without_lastModified objs)"
  by (simp add: update_updater_def blank_step_def wl_spread_stamp wl_spread_wl)

lemma wl_fold_update_execute:
  "map without_lastModified (objects (fold (update_execute t) us st))
     = map (blank_steps (map forward us)) (map without_lastModified (objects st))"
proof (induction us arbitrary: st)
  case Nil
  then show ?case by (simp add: blank_steps_def)
next
  case (Cons u us)
  obtain i q p where u: "u = (i, q, p)" by (cases u) auto
  show ?case
    using Cons.IH[of "update_execute t u st"]
    by (simp add: u wl_update_updater blank_steps_def forward_def)
qed

lemma wl_undo_rest:
  "map without_lastModified (objects (undo_rest clock rs st))
     = map (blank_steps (map backward rs)) (map without_lastModified (objects st))"
proof (induction rs arbitrary: st clock)
  case Nil
  then show ?case by (simp add: blank_steps_def)
next
  case (Cons u us)
  obtain i q p where u: "u = (i, q, p)" by (cases u) auto
  show ?case
    using Cons.IH[of "\<lambda>n. clock (Suc n)" "update_undo (clock 0) u st"]
    by (simp add: u wl_update_updater blank_steps_def backward_def)
qed

lemma undo_command_multiple:
  "undo_command clock (UpdateMultipleObjectsCommand us) st = undo_rest clock (rev us) st"
  by (cases "rev us") (simp_all add: undo_command_def)

lemma blank_steps_Cons: "blank_steps (q # qs) c = blank_steps qs (blank_step q c)"
  by (simp add: blank_steps_def)

lemma blank_steps_snoc: "blank_steps (qs @ [q]) c = blank_step q (blank_steps qs c)"
  by (simp add: blank_steps_def)

lemma o_id_blank_step:
  "(fst q = o_id c \<longrightarrow> p_id (snd q) = None) \<Longrightarrow> o_id (blank_step q c) = o_id c"
  by (simp add: blank_step_def o_id_spread)

lemma blank_steps_related:
  assumes "without_lastModified (spread a p) = without_lastModified (spread b p)"
    and "o_id a = o_id b"
    and "\<forall>q\<in>set qs. fst q = o_id a \<longrightarrow> p_id (snd q) = None"
  shows "without_lastModified (spread (blank_steps qs a) p)
           = without_lastModified (spread (blank_steps qs b) p)
         \<and> o_id (blank_steps qs a) = o_id (blank_steps qs b)
         \<and> o_id (blank_steps qs a) = o_id a"
  using assms
proof (induction qs arbitrary: a b)
  case Nil
  then show ?case by (simp add: blank_steps_def)
next
  case (Cons q qs)
  have ida: "o_id (blank_step q a) = o_id a" and idb: "o_id (blank_step q b) = o_id b"
    using Cons.prems(2,3) by (simp_all add: o_id_blank_step)
  have rel: "without_lastModified (spread (blank_step q a) p)
           = without_lastModified (spread (blank_step q b) p)"
  proof (cases "o_id a = fst q")
    case True
    then show ?thesis
      using Cons.prems(1,2) wl_spread_cong[OF Cons.prems(1), of "snd q"]
      by (simp add: blank_step_def wl_spread_wl)
  next
    case False
    then show ?thesis using Cons.prems(1,2) by (simp add: blank_step_def)
  qed
  have "\<forall>r\<in>set qs. fst r = o_id (blank_step q a) \<longrightarrow> p_id (snd r) = None"
    using Cons.prems(3) ida by simp
  from Cons.IH[OF rel _ this] ida idb Cons.prems(2)
  show ?case unfolding blank_steps_Cons by auto
qed

lemma blank_steps_backward_self:
  "captured us obj \<Longrightarrow>
   blank_steps (map backward us) (without_lastModified obj) = without_lastModified obj"
proof (induction us)
  case Nil
  then show ?case by (simp add: blank_steps_def)
next
  case (Cons u us)
  have "blank_step (backward u) (without_lastModified obj) = without_lastModified obj"
  proof (cases "fst u = o_id obj")
    case True
    then have "snd (snd u) = previousState_of (fst (snd u)) obj"
      using Cons.prems by (simp add: captured_def)
    then show ?thesis
      by (simp add: blank_step_def backward_def wl_spread_wl spread_previous_self)
  next
    case False
    then show ?thesis by (auto simp: blank_step_def backward_def)
  qed
  moreover have "captured us obj" using Cons.prems by (simp add: captured_def)
  ultimately show ?case using Cons.IH by (simp add: blank_steps_Cons)
qed

lemma backward_keeps_id:
  assumes "captured us obj"
  shows "\<forall>q\<in>set (map backward (rev us)). fst q = o_id obj \<longrightarrow> p_id (snd q) = None"
proof
  fix q assume "q \<in> set (map backward (rev us))"
  then obtain u where u: "u \<in> set us" "q = backward u" by auto
  show "fst q = o_id obj \<longrightarrow> p_id (snd q) = None"
  proof
    assume "fst q = o_id obj"
    then have "fst u = o_id obj" using u by (simp add: backward_def)
    then have "p_id (fst (snd u)) = None" "snd (snd u) = previousState_of (fst (snd u)) obj"
      using assms u(1) by (auto simp: captured_def)
    then show "p_id (snd q) = None"
      using u(2) by (simp add: backward_def p_id_previousState_of)
  qed
qed

lemma undo_after_execute_is_undo:
  assumes "captured us obj" and "o_id c = o_id obj"
  shows "blank_steps (map backward (rev us)) (blank_steps (map forward us) c)
           = blank_steps (map backward (rev us)) c"
  using assms
proof (induction us arbitrary: c)
  case Nil
  then show ?case by (simp add: blank_steps_def)
next
  case (Cons u us)
  have cap: "captured us obj" using Cons.prems(1) by (simp add: captured_def)
  let ?U = "map backward (rev us)"
  have idc: "o_id (blank_step (forward u) c) = o_id obj"
    using Cons.prems by (simp add: o_id_blank_step forward_def captured_def)
  have "blank_steps (map backward (rev (u # us))) (blank_steps (map forward (u # us)) c)
      = blank_step (backward u) (blank_steps ?U (blank_steps (map forward us) (blank_step (forward u) c)))"
    by (simp add: blank_steps_snoc blank_steps_Cons)
  also have "\<dots> = blank_step (backward u) (blank_steps ?U (blank_step (forward u) c))"
    using Cons.IH[OF cap idc] by simp
  also have "\<dots> = blank_step (backward u) (blank_steps ?U c)"
  proof (cases "fst u = o_id obj")
    case False
    then show ?thesis using Cons.prems(2) by (auto simp: blank_step_def forward_def)
  next
    case True
    then have pid: "p_id (fst (snd u)) = None"
      and prev: "snd (snd u) = previousState_of (fst (snd u)) obj"
      using Cons.prems(1) by (simp_all add: captured_def)
    let ?a = "blank_step (forward u) c"
    have a: "?a = without_lastModified (spread c (fst (snd u)))"
      using True Cons.prems(2) by (simp add: blank_step_def forward_def)
    have rel: "without_lastModified (spread ?a (snd (snd u)))
             = without_lastModified (spread c (snd (snd u)))"
      unfolding a prev by (simp add: wl_spread_wl spread_spread_previous)
    have ids: "o_id ?a = o_id c" using idc Cons.prems(2) by simp
    have keep: "\<forall>q\<in>set ?U. fst q = o_id ?a \<longrightarrow> p_id (snd q) = None"
      using backward_keeps_id[OF cap] idc by simp
    note r = blank_steps_related[OF rel ids keep]
    have "o_id (blank_steps ?U ?a) = fst u" "o_id (blank_steps ?U c) = fst u"
      using r True idc by auto
    then show ?thesis
      using r by (simp add: blank_step_def backward_def)
  qed
  also have "\<dots> = blank_steps (map backward (rev (u # us))) c"
    by (simp add: blank_steps_snoc)
  finally show ?case .
qed

lemma multiple_update_then_undo:
  assumes "\<forall>obj\<in>set (objects st). captured us obj"
  shows "map without_lastModified
           (objects (undo_command clock (UpdateMultipleObjectsCommand us)
              (execute now (UpdateMultipleObjectsCommand us) st)))
         = map without_lastModified (objects st)"
proof -
  have "map without_lastModified
           (objects (undo_command clock (UpdateMultipleObjectsCommand us)
              (execute now (UpdateMultipleObjectsCommand us) st)))
      = map (blank_steps (map backward (rev us)))
          (map (blank_steps (map forward us)) (map without_lastModified (objects st)))"
    by (simp only: undo_command_multiple wl_undo_rest execute.simps wl_fold_update_execute)
  also have "\<dots> = map without_lastModified (objects st)"
  proof -
    have "blank_steps (map backward (rev us))
            (blank_steps (map forward us) (without_lastModified obj)) = without_lastModified obj"
      if "obj \<in> set (objects st)" for obj
    proof -
      have cap: "captured us obj" using assms that by blast
      then have cap': "captured (rev us) obj" by (simp add: captured_def)
      have "blank_steps (map backward (rev us))
              (blank_steps (map forward us) (without_lastModified obj))
          = blank_steps (map backward (rev us)) (without_lastModified obj)"
        by (rule undo_after_execute_is_undo[OF cap]) simp
      also have "\<dots> = without_lastModified obj"
        by (rule blank_steps_backward_self[OF cap'])
      finally show ?thesis .
    qed
    then show ?thesis by (simp add: map_idI)
  qed
  finally show ?thesis .
qed

section \<open>Execute followed by undo\<close>

lemmas example_defs = client_def rect0_def circle0_def line0_def shape_def

text \<open>
  Claim C1, as the code has it.  \<open>execute()\<close> followed at once by \<open>undo()\<close>, with all store
  calls resolving, leaves the object list as follows.
  \<^item> Add and group creation, when no object has the new id: the list is exactly as before.
  \<^item> Delete of an object that is in the list, ids being unique: every other object keeps
    its place and the deleted object comes back at the end of the list, so the list holds
    the same objects as before, in a different order unless the object was last.
  \<^item> Update of an existing object, with the previous state taken from it as \<open>updateObject\<close>
    does and the id not among the updated keys: the list is as before, except that the
    object's \<open>lastModified\<close> is the clock reading of the undo.
  \<^item> Multiple update, each previous state taken from the object it addresses before
    anything ran: every object is as before up to its \<open>lastModified\<close>, in the same order.
\<close>

theorem execute_then_undo:
  "(find_id (o_id added) (objects st) = None \<longrightarrow>
      objects (undo_command clock (AddObjectCommand added)
                 (execute now (AddObjectCommand added) st)) = objects st \<and>
      objects (undo_command clock (CreateGroupCommand added ids)
                 (execute now (CreateGroupCommand added ids) st)) = objects st) \<and>
   (deleted \<in> set (objects st) \<and> distinct (map o_id (objects st)) \<longrightarrow>
      objects (undo_command clock (DeleteObjectCommand deleted)
                 (execute now (DeleteObjectCommand deleted) st))
        = remove_updater (o_id deleted) (objects st) @ [deleted] \<and>
      mset (objects (undo_command clock (DeleteObjectCommand deleted)
                 (execute now (DeleteObjectCommand deleted) st))) = mset (objects st)) \<and>
   (find_id i (objects st) = Some existing \<and> distinct (map o_id (objects st)) \<and>
    p_id updates = None \<longrightarrow>
      objects (undo_command clock (UpdateObjectCommand i updates (previousState_of updates existing))
                 (execute now (UpdateObjectCommand i updates (previousState_of updates existing)) st))
        = map (\<lambda>obj. if o_id obj = i then obj\<lparr>o_lastModified := clock 0\<rparr> else obj) (objects st)) \<and>
   ((\<forall>obj\<in>set (objects st). captured us obj) \<longrightarrow>
      map without_lastModified
        (objects (undo_command clock (UpdateMultipleObjectsCommand us)
                    (execute now (UpdateMultipleObjectsCommand us) st)))
        = map without_lastModified (objects st))"
proof (intro conjI impI)
  assume "find_id (o_id added) (objects st) = None"
  then show "objects (undo_command clock (AddObjectCommand added)
                 (execute now (AddObjectCommand added) st)) = objects st"
    and "objects (undo_command clock (CreateGroupCommand added ids)
                 (execute now (CreateGroupCommand added ids) st)) = objects st"
    by (simp_all add: undo_command_def add_fresh remove_added_fresh)
next
  assume a: "deleted \<in> set (objects st) \<and> distinct (map o_id (objects st))"
  show d: "objects (undo_command clock (DeleteObjectCommand deleted)
                 (execute now (DeleteObjectCommand deleted) st))
        = remove_updater (o_id deleted) (objects st) @ [deleted]"
    by (simp add: undo_command_def add_remove)
  show "mset (objects (undo_command clock (DeleteObjectCommand deleted)
                 (execute now (DeleteObjectCommand deleted) st))) = mset (objects st)"
    unfolding d using a by (simp only: mset_remove_present)
next
  assume "find_id i (objects st) = Some existing \<and> distinct (map o_id (objects st)) \<and>
    p_id updates = None"
  then show "objects (undo_command clock (UpdateObjectCommand i updates (previousState_of updates existing))
                 (execute now (UpdateObjectCommand i updates (previousState_of updates existing)) st))
        = map (\<lambda>obj. if o_id obj = i then obj\<lparr>o_lastModified := clock 0\<rparr> else obj) (objects st)"
    by (simp add: undo_command_def update_then_undo)
next
  assume "\<forall>obj\<in>set (objects st). captured us obj"
  then show "map without_lastModified
        (objects (undo_command clock (UpdateMultipleObjectsCommand us)
                    (execute now (UpdateMultipleObjectsCommand us) st)))
        = map without_lastModified (objects st)"
    by (rule multiple_update_then_undo)
qed

theorem execute_then_undo_witness:
  "find_id (o_id line0) (objects (client [rect0, circle0])) = None \<and>
   rect0 \<in> set (objects (client [rect0, circle0])) \<and>
   distinct (map o_id (objects (client [rect0, circle0]))) \<and>
   find_id ''r'' (objects (client [rect0, circle0])) = Some rect0 \<and>
   p_id (width_to 150) = None \<and>
   captured [(''r'', width_to 150, previousState_of (width_to 150) rect0),
             (''c'', width_to 70, previousState_of (width_to 70) circle0),
             (''r'', width_to 90, previousState_of (width_to 90) rect0)] rect0 \<and>
   captured [(''r'', width_to 150, previousState_of (width_to 150) rect0),
             (''c'', width_to 70, previousState_of (width_to 70) circle0),
             (''r'', width_to 90, previousState_of (width_to 90) rect0)] circle0 \<and>
   objects (undo_command (clock_from 3000) (AddObjectCommand line0)
              (execute (Fin 2000) (AddObjectCommand line0) (client [rect0, circle0])))
     = objects (client [rect0, circle0]) \<and>
   mset (objects (undo_command (clock_from 3000) (DeleteObjectCommand rect0)
              (execute (Fin 2000) (DeleteObjectCommand rect0) (client [rect0, circle0]))))
     = mset (objects (client [rect0, circle0])) \<and>
   map without_lastModified
     (objects (undo_command (clock_from 3000)
        (UpdateMultipleObjectsCommand
           [(''r'', width_to 150, previousState_of (width_to 150) rect0),
            (''c'', width_to 70, previousState_of (width_to 70) circle0),
            (''r'', width_to 90, previousState_of (width_to 90) rect0)])
        (execute (Fin 2000)
           (UpdateMultipleObjectsCommand
              [(''r'', width_to 150, previousState_of (width_to 150) rect0),
               (''c'', width_to 70, previousState_of (width_to 70) circle0),
               (''r'', width_to 90, previousState_of (width_to 90) rect0)])
           (client [rect0, circle0]))))
     = map without_lastModified (objects (client [rect0, circle0]))"
proof -
  let ?st = "client [rect0, circle0]"
  let ?us = "[(''r'', width_to 150, previousState_of (width_to 150) rect0),
              (''c'', width_to 70, previousState_of (width_to 70) circle0),
              (''r'', width_to 90, previousState_of (width_to 90) rect0)]"
  have o: "objects ?st = [rect0, circle0]" by (simp add: client_def)
  have ids: "o_id rect0 = ''r''" "o_id circle0 = ''c''" "o_id line0 = ''l''"
    by (simp_all add: example_defs)
  have h1: "find_id (o_id line0) (objects ?st) = None" by (simp add: o find_id_def ids)
  have h2: "rect0 \<in> set (objects ?st)" by (simp add: o)
  have h3: "distinct (map o_id (objects ?st))" by (simp add: o ids)
  have h4: "find_id ''r'' (objects ?st) = Some rect0" by (simp add: o find_id_def ids)
  have h5: "p_id (width_to 150) = None" by (simp add: width_to_def no_keys_def)
  have h6: "\<forall>obj\<in>set (objects ?st). captured ?us obj"
    by (simp add: o captured_def ids width_to_def no_keys_def)
  have h7: "captured ?us rect0 \<and> captured ?us circle0"
    using h6 by (simp add: o)
  show ?thesis
    using execute_then_undo[of line0 ?st "clock_from 3000" "Fin 2000" "[]" rect0 "''r''" rect0
        "width_to 150" ?us] h1 h2 h3 h4 h5 h6 h7
    by blast
qed

text \<open>
  Claim C1, as stated, fails.  Deleting the rectangle from the list of rectangle and circle
  and undoing gives circle, rectangle: the same objects but not the same list.  Widening
  the rectangle and undoing gives back the width but stamps \<open>lastModified\<close> with the time
  of the undo, 3000 in place of 1000.
\<close>

theorem undo_does_not_restore_exactly:
  "rect0 \<in> set (objects (client [rect0, circle0])) \<and>
   objects (undo_command (clock_from 3000) (DeleteObjectCommand rect0)
              (execute (Fin 2000) (DeleteObjectCommand rect0) (client [rect0, circle0])))
     = [circle0, rect0] \<and>
   [circle0, rect0] \<noteq> objects (client [rect0, circle0]) \<and>
   find_id ''r'' (objects (client [rect0, circle0])) = Some rect0 \<and>
   objects (undo_command (clock_from 3000)
              (UpdateObjectCommand ''r'' (width_to 150) (previousState_of (width_to 150) rect0))
              (execute (Fin 2000)
                 (UpdateObjectCommand ''r'' (width_to 150) (previousState_of (width_to 150) rect0))
                 (client [rect0, circle0])))
     = [rect0\<lparr>o_lastModified := Fin 3000\<rparr>, circle0] \<and>
   [rect0\<lparr>o_lastModified := Fin 3000\<rparr>, circle0] \<noteq> objects (client [rect0, circle0])"
proof -
  let ?st = "client [rect0, circle0]"
  have o: "objects ?st = [rect0, circle0]" by (simp add: client_def)
  have ids: "o_id rect0 = ''r''" "o_id circle0 = ''c''" by (simp_all add: example_defs)
  have ne: "rect0 \<noteq> circle0" using ids by auto
  have del: "objects (undo_command (clock_from 3000) (DeleteObjectCommand rect0)
              (execute (Fin 2000) (DeleteObjectCommand rect0) ?st)) = [circle0, rect0]"
    by (simp add: undo_command_def o add_updater_def remove_updater_def find_id_def ids)
  have f: "find_id ''r'' (objects ?st) = Some rect0"
    by (simp add: o find_id_def ids)
  have d: "distinct (map o_id (objects ?st))" by (simp add: o ids)
  have p: "p_id (width_to 150) = None" by (simp add: width_to_def no_keys_def)
  have upd: "objects (undo_command (clock_from 3000)
              (UpdateObjectCommand ''r'' (width_to 150) (previousState_of (width_to 150) rect0))
              (execute (Fin 2000)
                 (UpdateObjectCommand ''r'' (width_to 150) (previousState_of (width_to 150) rect0))
                 ?st))
     = [rect0\<lparr>o_lastModified := Fin 3000\<rparr>, circle0]"
    by (simp add: undo_command_def update_then_undo[OF p d f, unfolded o] o ids clock_from_def)
  have lm: "o_lastModified rect0 = Fin 1000" by (simp add: example_defs)
  have ne2: "rect0\<lparr>o_lastModified := Fin 3000\<rparr> \<noteq> rect0"
  proof
    assume "rect0\<lparr>o_lastModified := Fin 3000\<rparr> = rect0"
    then have "o_lastModified (rect0\<lparr>o_lastModified := Fin 3000\<rparr>) = o_lastModified rect0"
      by simp
    then show False using lm by simp
  qed
  show ?thesis
    using del upd f ne ne2 by (simp add: o)
qed

section \<open>The group object\<close>

lemma foldl_jmax_Fin:
  "foldl jmax (Fin a) (map Fin zs) = Fin (Max (insert a (set zs)))"
proof (induction zs arbitrary: a)
  case Nil
  then show ?case by simp
next
  case (Cons z zs)
  have "Max (insert (max a z) (set zs)) = Max (insert a (insert z (set zs)))"
    by (cases "set zs = {}") (simp_all add: max.assoc)
  then show ?case using Cons.IH[of "max a z"] by simp
qed

lemma Math_max_Fin:
  "zs \<noteq> [] \<Longrightarrow> Math_max (map Fin zs) = Fin (Max (set zs))"
  by (cases zs) (simp_all add: Math_max_def foldl_jmax_Fin)

lemma jle_refl: "a \<noteq> NaN \<Longrightarrow> jle a a"
  by (cases a) simp_all

lemma jle_trans: "jle a b \<Longrightarrow> jle b c \<Longrightarrow> jle a c"
  by (cases a; cases b; cases c) simp_all

lemma jmax_cases: "a \<noteq> NaN \<Longrightarrow> b \<noteq> NaN \<Longrightarrow> jmax a b = a \<and> jle b a \<or> jmax a b = b \<and> jle a b"
  by (cases a; cases b) (auto simp: max_def)

lemma foldl_jmax_greatest:
  assumes "a \<noteq> NaN" and "NaN \<notin> set xs"
  shows "foldl jmax a xs \<in> insert a (set xs) \<and> jle a (foldl jmax a xs) \<and>
         (\<forall>x\<in>set xs. jle x (foldl jmax a xs))"
  using assms
proof (induction xs arbitrary: a)
  case Nil
  then show ?case by (simp add: jle_refl)
next
  case (Cons x xs)
  have x: "x \<noteq> NaN" and xs: "NaN \<notin> set xs" using Cons.prems(2) by auto
  from jmax_cases[OF Cons.prems(1) x]
  have m: "jmax a x \<in> {a, x}" "jle a (jmax a x)" "jle x (jmax a x)" "jmax a x \<noteq> NaN"
    using Cons.prems(1) x by (auto simp: jle_refl)
  note ih = Cons.IH[OF m(4) xs]
  from ih m show ?case by (auto intro: jle_trans)
qed

lemma jle_NInf: "jle x NInf \<Longrightarrow> x = NInf"
  by (cases x) simp_all

lemma Math_max_greatest:
  assumes "xs \<noteq> []" and "NaN \<notin> set xs"
  shows "Math_max xs \<in> set xs \<and> (\<forall>x\<in>set xs. jle x (Math_max xs))"
proof -
  have g: "foldl jmax NInf xs \<in> insert NInf (set xs)" "\<forall>x\<in>set xs. jle x (foldl jmax NInf xs)"
    using foldl_jmax_greatest[of NInf xs] assms(2) by simp_all
  have "foldl jmax NInf xs \<in> set xs"
  proof (cases "foldl jmax NInf xs = NInf")
    case True
    obtain x where x: "x \<in> set xs" using assms(1) by (cases xs) auto
    then have "x = NInf" using g(2) True by (auto dest: jle_NInf)
    then show ?thesis using x True by simp
  next
    case False
    then show ?thesis using g(1) by simp
  qed
  then show ?thesis using g(2) by (simp add: Math_max_def)
qed

lemma counted_zIndex_not_NaN: "counted_zIndex m \<noteq> NaN"
  by (cases "o_zIndex m"; cases "the (o_zIndex m)")
     (auto simp: counted_zIndex_def or_opt_def or_num_def)

lemma counted_safe_zIndex:
  "safe_zIndex m = Some k \<Longrightarrow> counted_zIndex m = Fin (of_int k)"
  by (auto simp: safe_zIndex_def counted_zIndex_def or_opt_def or_num_def
      split: option.splits jsnum.splits if_splits)

lemma safe_zIndex_bound: "safe_zIndex m = Some k \<Longrightarrow> \<bar>k\<bar> < 2 ^ 53"
proof -
  assume "safe_zIndex m = Some k"
  then obtain z where z: "z = of_int k" "\<bar>z\<bar> < (9007199254740992::rat)"
    by (auto simp: safe_zIndex_def split: option.splits jsnum.splits if_splits)
  then have "(of_int \<bar>k\<bar> :: rat) < of_int 9007199254740992" by simp
  then have "\<bar>k\<bar> < 9007199254740992" by (simp only: of_int_less_iff)
  then show ?thesis by simp
qed

lemma o_zIndex_groupObject_of:
  "o_zIndex (groupObject_of uid ids members newId now)
     = Some (jadd (Math_max (map counted_zIndex members)) (Fin 1))"
proof -
  obtain a b c d where "selection_bounds members = (a, b, c, d)"
    by (cases "selection_bounds members") auto
  then show ?thesis
    unfolding groupObject_of_def Let_def counted_zIndex_def by simp
qed

text \<open>
  Claim C7, as the code has it.  When \<open>createGroup\<close> goes ahead (in the render it was made
  in a user is signed in and at least two ids are selected) and the selected objects found
  in the list of that render are not none, it commits a group object whose z-order index
  is the greatest index a member is counted with plus one, added as doubles add; a member
  that has no index, or the index \<open>NaN\<close>, is counted with 0.  When the index of every member
  is an integer of magnitude below 2 to the power 53, the index of the group is exactly
  one greater than the maximum of theirs.
\<close>

theorem group_zIndex_from_members:
  assumes "r_currentUser r = Some uid" and "2 \<le> length (r_selectedIds r)"
    and "members = filter (\<lambda>obj. o_id obj \<in> set (r_selectedIds r)) (r_objects r)"
    and "members \<noteq> []"
  shows "createGroup r newId now st =
           (executeCommand now
              (CreateGroupCommand (groupObject_of uid (r_selectedIds r) members newId now)
                 (r_selectedIds r)) st, Some (AwaitCommit True)) \<and>
         (\<exists>m\<in>set members.
            (\<forall>other\<in>set members. jle (counted_zIndex other) (counted_zIndex m)) \<and>
            o_zIndex (groupObject_of uid (r_selectedIds r) members newId now)
              = Some (jadd (counted_zIndex m) (Fin 1))) \<and>
         ((\<forall>m\<in>set members. safe_zIndex m \<noteq> None) \<longrightarrow>
            o_zIndex (groupObject_of uid (r_selectedIds r) members newId now)
              = Some (Fin (of_int (Max ((\<lambda>m. the (safe_zIndex m)) ` set members) + 1))))"
proof (intro conjI impI)
  show "createGroup r newId now st =
           (executeCommand now
              (CreateGroupCommand (groupObject_of uid (r_selectedIds r) members newId now)
                 (r_selectedIds r)) st, Some (AwaitCommit True))"
    using assms(1,2,3) by (simp add: createGroup_def Let_def)
next
  let ?xs = "map counted_zIndex members"
  have "?xs \<noteq> []" "NaN \<notin> set ?xs"
    using assms(4) counted_zIndex_not_NaN by (auto simp: image_iff dest: sym)
  from Math_max_greatest[OF this]
  obtain m where m: "m \<in> set members" "Math_max ?xs = counted_zIndex m"
    and g: "\<forall>x\<in>set ?xs. jle x (Math_max ?xs)"
    by auto
  have "\<forall>other\<in>set members. jle (counted_zIndex other) (counted_zIndex m)"
    using g m(2) by simp
  moreover have "o_zIndex (groupObject_of uid (r_selectedIds r) members newId now)
              = Some (jadd (counted_zIndex m) (Fin 1))"
    by (simp add: o_zIndex_groupObject_of m(2))
  ultimately show "\<exists>m\<in>set members.
            (\<forall>other\<in>set members. jle (counted_zIndex other) (counted_zIndex m)) \<and>
            o_zIndex (groupObject_of uid (r_selectedIds r) members newId now)
              = Some (jadd (counted_zIndex m) (Fin 1))"
    using m(1) by blast
next
  assume safe: "\<forall>m\<in>set members. safe_zIndex m \<noteq> None"
  let ?k = "\<lambda>m. the (safe_zIndex m)"
  let ?K = "Max (?k ` set members)"
  have s: "safe_zIndex m = Some (?k m)" if "m \<in> set members" for m
    using safe that by auto
  have c: "counted_zIndex m = Fin (of_int (?k m))" if "m \<in> set members" for m
    using s[OF that] by (rule counted_safe_zIndex)
  have b: "\<bar>?k m\<bar> < 2 ^ 53" if "m \<in> set members" for m
    using s[OF that] by (rule safe_zIndex_bound)
  have "map counted_zIndex members = map Fin (map (\<lambda>m. of_int (?k m)) members)"
    using c by simp
  then have "Math_max (map counted_zIndex members)
      = Fin (Max (set (map (\<lambda>m. of_int (?k m)) members)))"
    using assms(4) by (simp only: Math_max_Fin map_is_Nil_conv not_False_eq_True)
  also have "Max (set (map (\<lambda>m. of_int (?k m)) members)) = (of_int ?K :: rat)"
  proof -
    have "set (map (\<lambda>m. of_int (?k m)) members) = (of_int :: int \<Rightarrow> rat) ` (?k ` set members)"
      by (simp add: image_image)
    moreover have "Max ((of_int :: int \<Rightarrow> rat) ` (?k ` set members)) = of_int ?K"
      using assms(4) by (intro mono_Max_commute[symmetric]) (auto simp: mono_def)
    ultimately show ?thesis by simp
  qed
  finally have mx: "Math_max (map counted_zIndex members) = Fin (of_int ?K)" .
  have "?K \<in> ?k ` set members" using assms(4) by (intro Max_in) auto
  then obtain m where "m \<in> set members" "?K = ?k m" by auto
  then have "\<bar>?K\<bar> < 2 ^ 53" using b by simp
  then have "\<bar>?K + 1\<bar> \<le> 2 ^ 53" by simp
  then have "to_double (of_int (?K + 1)) = Fin (of_int (?K + 1))"
    by (rule to_double_of_int)
  then have "jadd (Fin (of_int ?K)) (Fin 1) = Fin (of_int (?K + 1))"
    by simp
  then show "o_zIndex (groupObject_of uid (r_selectedIds r) members newId now)
              = Some (Fin (of_int (?K + 1)))"
    by (simp only: o_zIndex_groupObject_of mx)
qed


lemmas bounds_defs = groupObject_of_def selection_bounds_def Math_min_def Math_max_def
  jsub_def or_opt_def or_num_def Let_def

theorem group_zIndex_from_members_witness:
  "r_currentUser (render ((client [rect0, circle0\<lparr>o_zIndex := Some (Fin 3)\<rparr>])\<lparr>selectedIds := [''r'', ''c'']\<rparr>))
     = Some ''u1'' \<and>
   [rect0, circle0\<lparr>o_zIndex := Some (Fin 3)\<rparr>] \<noteq> [] \<and>
   safe_zIndex rect0 = Some 0 \<and>
   safe_zIndex (circle0\<lparr>o_zIndex := Some (Fin 3)\<rparr>) = Some 3 \<and>
   createGroup (render ((client [rect0, circle0\<lparr>o_zIndex := Some (Fin 3)\<rparr>])\<lparr>selectedIds := [''r'', ''c'']\<rparr>))
       ''g'' (Fin 2000)
       ((client [rect0, circle0\<lparr>o_zIndex := Some (Fin 3)\<rparr>])\<lparr>selectedIds := [''r'', ''c'']\<rparr>)
     = (executeCommand (Fin 2000)
          (CreateGroupCommand
             (groupObject_of ''u1'' [''r'', ''c''] [rect0, circle0\<lparr>o_zIndex := Some (Fin 3)\<rparr>]
                ''g'' (Fin 2000))
             [''r'', ''c''])
          ((client [rect0, circle0\<lparr>o_zIndex := Some (Fin 3)\<rparr>])\<lparr>selectedIds := [''r'', ''c'']\<rparr>),
        Some (AwaitCommit True)) \<and>
   o_zIndex (groupObject_of ''u1'' [''r'', ''c''] [rect0, circle0\<lparr>o_zIndex := Some (Fin 3)\<rparr>]
      ''g'' (Fin 2000)) = Some (Fin 4)"
proof -
  let ?c = "circle0\<lparr>o_zIndex := Some (Fin 3)\<rparr>"
  let ?st = "(client [rect0, ?c])\<lparr>selectedIds := [''r'', ''c'']\<rparr>"
  have u: "r_currentUser (render ?st) = Some ''u1''" by (simp add: render_def client_def)
  have s: "r_selectedIds (render ?st) = [''r'', ''c'']" by (simp add: render_def)
  have l: "2 \<le> length (r_selectedIds (render ?st))" by (simp add: s)
  have m: "[rect0, ?c] = filter (\<lambda>obj. o_id obj \<in> set (r_selectedIds (render ?st)))
                             (r_objects (render ?st))"
    by (simp add: render_def example_defs)
  have n: "[rect0, ?c] \<noteq> []" by simp
  have z: "safe_zIndex rect0 = Some 0" "safe_zIndex ?c = Some 3"
    by (simp_all add: example_defs safe_zIndex_def)
  have f: "\<forall>m\<in>set [rect0, ?c]. safe_zIndex m \<noteq> None"
    by (simp add: z)
  have x: "Fin (of_int (Max ((\<lambda>m. the (safe_zIndex m)) ` set [rect0, ?c]) + 1)) = Fin 4"
    by (simp add: z)
  show ?thesis
    using group_zIndex_from_members[OF u l m n, of "''g''" "Fin 2000" ?st] u n z f
    unfolding x s by blast
qed

text \<open>
  Claim C7, as stated, fails.  Select a rectangle that has no z-order index and a circle
  whose index is \<open>-2\<close>: the only index among the members is \<open>-2\<close>, one greater is \<open>-1\<close>, and
  the group gets 1, since the rectangle counts as 0.  And select a rectangle whose index
  is 2 to the power 53 and a circle with index 0: the group gets 2 to the power 53 again,
  since the sum with 1 is not a double and rounds back.
\<close>

theorem group_zIndex_not_one_above_members:
  "o_zIndex (rect0\<lparr>o_zIndex := None\<rparr>) = None \<and>
   o_zIndex (circle0\<lparr>o_zIndex := Some (Fin (- 2))\<rparr>) = Some (Fin (- 2)) \<and>
   createGroup
       (render (selectMultiple [''r'', ''c'']
          (client [rect0\<lparr>o_zIndex := None\<rparr>, circle0\<lparr>o_zIndex := Some (Fin (- 2))\<rparr>])))
       ''g'' (Fin 2000)
       (rendered (selectMultiple [''r'', ''c'']
          (client [rect0\<lparr>o_zIndex := None\<rparr>, circle0\<lparr>o_zIndex := Some (Fin (- 2))\<rparr>])))
     = (executeCommand (Fin 2000)
          (CreateGroupCommand
             (groupObject_of ''u1'' [''r'', ''c'']
                [rect0\<lparr>o_zIndex := None\<rparr>, circle0\<lparr>o_zIndex := Some (Fin (- 2))\<rparr>]
                ''g'' (Fin 2000))
             [''r'', ''c''])
          (rendered (selectMultiple [''r'', ''c'']
             (client [rect0\<lparr>o_zIndex := None\<rparr>, circle0\<lparr>o_zIndex := Some (Fin (- 2))\<rparr>]))),
        Some (AwaitCommit True)) \<and>
   o_zIndex (groupObject_of ''u1'' [''r'', ''c'']
               [rect0\<lparr>o_zIndex := None\<rparr>, circle0\<lparr>o_zIndex := Some (Fin (- 2))\<rparr>]
               ''g'' (Fin 2000)) = Some (Fin 1) \<and>
   o_zIndex (groupObject_of ''u1'' [''r'', ''c'']
               [rect0\<lparr>o_zIndex := Some (Fin 9007199254740992)\<rparr>, circle0]
               ''g'' (Fin 2000)) = Some (Fin 9007199254740992)"
proof -
  let ?r = "rect0\<lparr>o_zIndex := None\<rparr>"
  let ?c = "circle0\<lparr>o_zIndex := Some (Fin (- 2))\<rparr>"
  have c: "createGroup (render (selectMultiple [''r'', ''c''] (client [?r, ?c]))) ''g'' (Fin 2000)
       (rendered (selectMultiple [''r'', ''c''] (client [?r, ?c])))
     = (executeCommand (Fin 2000)
          (CreateGroupCommand (groupObject_of ''u1'' [''r'', ''c''] [?r, ?c] ''g'' (Fin 2000))
             [''r'', ''c''])
          (rendered (selectMultiple [''r'', ''c''] (client [?r, ?c]))),
        Some (AwaitCommit True))"
    by (simp add: createGroup_def render_def selectMultiple_def Let_def example_defs)
  have a: "o_zIndex (groupObject_of ''u1'' [''r'', ''c''] [?r, ?c] ''g'' (Fin 2000)) = Some (Fin 1)"
    by (simp add: o_zIndex_groupObject_of counted_zIndex_def Math_max_def or_opt_def or_num_def
        example_defs)
  have b: "o_zIndex (groupObject_of ''u1'' [''r'', ''c'']
               [rect0\<lparr>o_zIndex := Some (Fin 9007199254740992)\<rparr>, circle0]
               ''g'' (Fin 2000)) = Some (Fin 9007199254740992)"
    by (simp add: o_zIndex_groupObject_of counted_zIndex_def Math_max_def or_opt_def or_num_def
        example_defs to_double_above_safe)
  show ?thesis using a b c by simp
qed

lemma createGroup_rectangle_and_circle:
  "groupObject_of ''u1'' [''r'', ''c''] [rect0, circle0] ''g'' (Fin 2000)
     = \<lparr>o_id = ''g'', o_type = ''group'', o_x = Fin 100, o_y = Fin 0,
        o_width = Fin 340, o_height = Fin 140, o_x2 = None, o_y2 = None,
        o_zIndex = Some (Fin 1), o_fill = Some ''#000000'', o_nickname = Some ''Group of 2'',
        o_groupedObjects = Some [''r'', ''c''], o_shadow = Some False,
        o_createdBy = Some ''u1'', o_createdAt = Fin 2000, o_lastModified = Fin 2000\<rparr>"
  by (simp add: bounds_defs example_defs)

lemma createGroup_line_to_origin:
  "groupObject_of ''u1'' [''l'', ''c''] [line0, circle0] ''g'' (Fin 2000)
     = \<lparr>o_id = ''g'', o_type = ''group'', o_x = Fin 175, o_y = Fin 25,
        o_width = Fin 190, o_height = Fin 190, o_x2 = None, o_y2 = None,
        o_zIndex = Some (Fin 1), o_fill = Some ''#000000'', o_nickname = Some ''Group of 2'',
        o_groupedObjects = Some [''l'', ''c''], o_shadow = Some False,
        o_createdBy = Some ''u1'', o_createdAt = Fin 2000, o_lastModified = Fin 2000\<rparr>"
  by (simp add: bounds_defs example_defs)

text \<open>
  Claim C6, at an input where the code departs from it.  Select a line from \<open>(100, 100)\<close>
  to \<open>(0, 0)\<close> and the circle centred at \<open>(200, 0)\<close> with radius 50.  Both end points of the
  line and the circle span \<open>x\<close> from 0 to 250, so the padded box should span \<open>-20\<close> to 270,
  width 290 and centre 125.  The source reads the end point as \<open>obj.x2 || obj.x\<close>, and
  \<open>0 || 100\<close> is 100: the group object has centre 175 and width 190, and its left edge,
  at 80, leaves the end point of the line outside.
\<close>

theorem group_box_misses_line_end_at_zero:
  "createGroup (render (selectMultiple [''l'', ''c''] (client [line0, circle0]))) ''g'' (Fin 2000)
       (rendered (selectMultiple [''l'', ''c''] (client [line0, circle0])))
     = (executeCommand (Fin 2000)
          (CreateGroupCommand
             (groupObject_of ''u1'' [''l'', ''c''] [line0, circle0] ''g'' (Fin 2000))
             [''l'', ''c''])
          (rendered (selectMultiple [''l'', ''c''] (client [line0, circle0]))),
        Some (AwaitCommit True)) \<and>
   o_x line0 = Fin 100 \<and> o_x2 line0 = Some (Fin 0) \<and>
   o_x (groupObject_of ''u1'' [''l'', ''c''] [line0, circle0] ''g'' (Fin 2000)) = Fin 175 \<and>
   o_width (groupObject_of ''u1'' [''l'', ''c''] [line0, circle0] ''g'' (Fin 2000)) = Fin 190 \<and>
   jsub (o_x (groupObject_of ''u1'' [''l'', ''c''] [line0, circle0] ''g'' (Fin 2000)))
        (jhalf (o_width (groupObject_of ''u1'' [''l'', ''c''] [line0, circle0] ''g'' (Fin 2000))))
     = Fin 80"
proof -
  have c: "createGroup (render (selectMultiple [''l'', ''c''] (client [line0, circle0])))
       ''g'' (Fin 2000) (rendered (selectMultiple [''l'', ''c''] (client [line0, circle0])))
     = (executeCommand (Fin 2000)
          (CreateGroupCommand
             (groupObject_of ''u1'' [''l'', ''c''] [line0, circle0] ''g'' (Fin 2000))
             [''l'', ''c''])
          (rendered (selectMultiple [''l'', ''c''] (client [line0, circle0]))),
        Some (AwaitCommit True))"
    by (simp add: createGroup_def render_def selectMultiple_def Let_def example_defs)
  have l: "o_x line0 = Fin 100 \<and> o_x2 line0 = Some (Fin 0)"
    by (simp add: example_defs)
  show ?thesis
    unfolding createGroup_line_to_origin using c l
    by (simp add: createGroup_line_to_origin jsub_def)
qed

section \<open>Intents, snapshots and the guard\<close>

lemmas state_defs = updateObjectsState_def call_store_def addToFirestore_def
  removeFromFirestore_def updateInFirestore_def update_execute_def update_undo_def
  clearSelection_def selectMultiple_def rendered_def render_def
lemmas history_defs = executeCommand_history_def drop_redo_def push_command_def over_limit_def
  shift_oldest_def maxHistorySize_def emptyHistory_def canUndo_def canRedo_def undo_target_def
  at_index_def undo_done_def redo_advance_def redo_target_def slice0_def

lemma resizing_eq:
  "resizing =
     (client [rect0\<lparr>o_width := Fin 150, o_lastModified := Fin 2000\<rparr>, circle0])
       \<lparr>objectsIdentity := 1,
        commandHistory :=
          \<lparr>history = [UpdateObjectCommand ''r'' (width_to 150)
                         (previousState_of (width_to 150) rect0)],
           currentIndex = 0\<rparr>,
        firestoreCalls :=
          [SetDocMerge ''r'' (rect0\<lparr>o_width := Fin 150, o_lastModified := Fin 2000\<rparr>)]\<rparr>"
  by (simp add: resizing_def updateObject_def executeCommand_def find_id_def Let_def
      update_updater_def spread_def spread_key_def removeUndefinedValues_def defined_key_def
      width_to_def no_keys_def state_defs history_defs example_defs)

lemma snd_updateObject_example:
  "snd (updateObject (render (client [rect0, circle0])) ''r'' (width_to 150) (Fin 2000)
          (client [rect0, circle0]))
     = Some (AwaitCommit False)"
  by (simp add: updateObject_def render_def find_id_def Let_def example_defs)

lemma line_added_eq:
  "line_added =
     (client [rect0, circle0,
              line0\<lparr>o_id := ''n'', o_createdAt := Fin 2000, o_lastModified := Fin 2000,
                     o_width := Fin 100, o_height := Fin 100\<rparr>])
       \<lparr>objectsIdentity := 1,
        selectedIds := [''r'', ''c''],
        commandHistory :=
          \<lparr>history = [AddObjectCommand
                         (line0\<lparr>o_id := ''n'', o_createdAt := Fin 2000,
                                o_lastModified := Fin 2000,
                                o_width := Fin 100, o_height := Fin 100\<rparr>)],
           currentIndex = 0\<rparr>,
        firestoreCalls :=
          [SetDoc ''n'' (line0\<lparr>o_id := ''n'', o_createdAt := Fin 2000,
                               o_lastModified := Fin 2000,
                               o_width := Fin 100, o_height := Fin 100\<rparr>)]\<rparr>"
  by (simp add: line_added_def addObject_def executeCommand_def find_id_def Let_def
      add_updater_def or_num_def newObject_of_def state_defs history_defs example_defs)

lemma undo_line_added:
  "undo (Fin 2002) line_added =
     ((client [rect0, circle0])
        \<lparr>objectsIdentity := 2, renderPending := True,
         selectedIds := [''r'', ''c''],
         commandHistory :=
           \<lparr>history = [AddObjectCommand
                          (line0\<lparr>o_id := ''n'', o_createdAt := Fin 2000,
                                 o_lastModified := Fin 2000,
                                 o_width := Fin 100, o_height := Fin 100\<rparr>)],
            currentIndex = 0\<rparr>,
         isExecutingCommand := True,
         firestoreCalls :=
           [SetDoc ''n'' (line0\<lparr>o_id := ''n'', o_createdAt := Fin 2000,
                                o_lastModified := Fin 2000,
                                o_width := Fin 100, o_height := Fin 100\<rparr>),
            DeleteDoc ''n'']\<rparr>,
      Some (AwaitUndo []))"
  by (simp add: line_added_eq undo_def remove_updater_def Let_def state_defs history_defs
      example_defs)

lemma undoing_eq:
  "undoing =
     (client [rect0, circle0])
        \<lparr>objectsIdentity := 2,
         selectedIds := [''r'', ''c''],
         commandHistory :=
           \<lparr>history = [AddObjectCommand
                          (line0\<lparr>o_id := ''n'', o_createdAt := Fin 2000,
                                 o_lastModified := Fin 2000,
                                 o_width := Fin 100, o_height := Fin 100\<rparr>)],
            currentIndex = 0\<rparr>,
         isExecutingCommand := True,
         firestoreCalls :=
           [SetDoc ''n'' (line0\<lparr>o_id := ''n'', o_createdAt := Fin 2000,
                                o_lastModified := Fin 2000,
                                o_width := Fin 100, o_height := Fin 100\<rparr>),
            DeleteDoc ''n'']\<rparr>"
  by (simp add: undoing_def undo_line_added rendered_def client_def)

lemma rect_deleted_eq:
  "rect_deleted =
     (client [circle0])
        \<lparr>objectsIdentity := 1,
         commandHistory := \<lparr>history = [DeleteObjectCommand rect0], currentIndex = 0\<rparr>,
         firestoreCalls := [DeleteDoc ''r'']\<rparr>"
  by (simp add: rect_deleted_def deleteObject_def executeCommand_def find_id_def Let_def
      remove_updater_def state_defs history_defs example_defs)

lemma guard_rejects:
  "isExecutingCommand st \<Longrightarrow>
     addObject r object newId now st = (st, None) \<and>
     updateObject r i updates now st = (st, None) \<and>
     deleteObject r i now st = (st, None) \<and>
     undo now st = (st, None) \<and>
     redo now st = (st, None) \<and>
     setObjects prevKeys snapshot st = st"
  by (simp add: addObject_def updateObject_def deleteObject_def undo_def redo_def setObjects_def)

lemma unchanged_by_store_calls [simp]:
  "commandHistory (call_store c st) = commandHistory st"
  "isExecutingCommand (call_store c st) = isExecutingCommand st"
  "commandHistory (updateInFirestore now i u st) = commandHistory st"
  "isExecutingCommand (updateInFirestore now i u st) = isExecutingCommand st"
  "commandHistory (updateObjectsState f st) = commandHistory st"
  "isExecutingCommand (updateObjectsState f st) = isExecutingCommand st"
  "commandHistory (addToFirestore obj st) = commandHistory st"
  "isExecutingCommand (addToFirestore obj st) = isExecutingCommand st"
  "commandHistory (removeFromFirestore i st) = commandHistory st"
  "isExecutingCommand (removeFromFirestore i st) = isExecutingCommand st"
  "commandHistory (rendered st) = commandHistory st"
  "isExecutingCommand (rendered st) = isExecutingCommand st"
  by (simp_all add: call_store_def updateInFirestore_def updateObjectsState_def Let_def
      addToFirestore_def removeFromFirestore_def rendered_def split: option.splits)

lemma unchanged_by_update [simp]:
  "commandHistory (update_execute now u st) = commandHistory st"
  "isExecutingCommand (update_execute now u st) = isExecutingCommand st"
  "commandHistory (update_undo now u st) = commandHistory st"
  "isExecutingCommand (update_undo now u st) = isExecutingCommand st"
  by (simp_all add: update_execute_def update_undo_def split: prod.splits)

lemma unchanged_by_fold_update_execute [simp]:
  "commandHistory (fold (update_execute now) us st) = commandHistory st"
  "isExecutingCommand (fold (update_execute now) us st) = isExecutingCommand st"
  by (induction us arbitrary: st) simp_all

lemma unchanged_by_execute [simp]:
  "commandHistory (execute now c st) = commandHistory st"
  "isExecutingCommand (execute now c st) = isExecutingCommand st"
  by (cases c; simp)+

lemma unchanged_by_undo_first [simp]:
  "commandHistory (fst (undo_first now c st)) = commandHistory st"
  "isExecutingCommand (fst (undo_first now c st)) = isExecutingCommand st"
  by (cases c; simp split: list.splits)+

lemma commits_leave_guard_as_it_is:
  "isExecutingCommand (fst (addObject r object newId now st)) = isExecutingCommand st"
  "isExecutingCommand (fst (updateObject r i updates now st)) = isExecutingCommand st"
  "isExecutingCommand (fst (deleteObject r i now st)) = isExecutingCommand st"
  "isExecutingCommand (fst (createGroup r newId now st)) = isExecutingCommand st"
  by (simp_all add: addObject_def updateObject_def deleteObject_def createGroup_def
      executeCommand_def Let_def split: option.splits)

lemma guard_set_while_undo_or_redo_suspended:
  "(undo now st = (st1, Some p) \<longrightarrow> isExecutingCommand st1) \<and>
   (redo now st = (st2, Some q) \<longrightarrow> isExecutingCommand st2)"
proof -
  have "isExecutingCommand st1" if "undo now st = (st1, Some p)"
  proof -
    from that obtain c rest
      where "undo_first now c (st\<lparr>isExecutingCommand := True\<rparr>) = (st1, rest)"
      by (auto simp: undo_def split: if_splits option.splits prod.splits)
    then have "st1 = fst (undo_first now c (st\<lparr>isExecutingCommand := True\<rparr>))"
      by simp
    then show ?thesis by simp
  qed
  moreover have "isExecutingCommand st2" if "redo now st = (st2, Some q)"
    using that by (auto simp: redo_def split: if_splits option.splits)
  ultimately show ?thesis by blast
qed

lemma commandHistory_executeCommand:
  "commandHistory (executeCommand now c st) = executeCommand_history c (commandHistory st)"
  by (simp add: executeCommand_def)

text \<open>
  The three updates of one multiple update address the rectangle.  The first updater runs
  at once and the other two are kept for the render, so \<open>objectsRef\<close> stays at the list
  after the first update, and the document written for the third lacks the height that
  the second has set.
\<close>

lemma kept_updaters_leave_the_ref_behind:
  "objects (execute (Fin 2000)
     (UpdateMultipleObjectsCommand
        [(''r'', width_to 150, no_keys), (''r'', height_to 70, no_keys), (''r'', width_to 90, no_keys)])
     (client [rect0]))
     = [rect0\<lparr>o_width := Fin 90, o_height := Fin 70, o_lastModified := Fin 2000\<rparr>] \<and>
   objectsRef (execute (Fin 2000)
     (UpdateMultipleObjectsCommand
        [(''r'', width_to 150, no_keys), (''r'', height_to 70, no_keys), (''r'', width_to 90, no_keys)])
     (client [rect0]))
     = [rect0\<lparr>o_width := Fin 150, o_lastModified := Fin 2000\<rparr>] \<and>
   firestoreCalls (execute (Fin 2000)
     (UpdateMultipleObjectsCommand
        [(''r'', width_to 150, no_keys), (''r'', height_to 70, no_keys), (''r'', width_to 90, no_keys)])
     (client [rect0]))
     = [SetDocMerge ''r'' (rect0\<lparr>o_width := Fin 150, o_lastModified := Fin 2000\<rparr>),
        SetDocMerge ''r'' (rect0\<lparr>o_width := Fin 150, o_height := Fin 70, o_lastModified := Fin 2000\<rparr>),
        SetDocMerge ''r'' (rect0\<lparr>o_width := Fin 90, o_lastModified := Fin 2000\<rparr>)]"
  by (simp add: update_updater_def spread_def spread_key_def removeUndefinedValues_def
      defined_key_def find_id_def width_to_def height_to_def no_keys_def state_defs example_defs)

text \<open>
  Claim C8, as the code has it.  \<open>setObjects\<close> discards a snapshot whose text is the text
  of the current list: the state is as before and the cell keeps the array it holds.  That
  is so for a snapshot with the objects of the list, each with its keys in the order the
  object in the list has them.  A snapshot with another text, the flag not being set,
  replaces the array.
\<close>

theorem snapshot_with_equal_text_is_discarded:
  "(stringify newObjects = stringify (zip prevKeys (objects st)) \<longrightarrow>
      setObjects prevKeys newObjects st = st) \<and>
   setObjects prevKeys (zip prevKeys (objects st)) st = st \<and>
   (\<not> isExecutingCommand st \<and> stringify newObjects \<noteq> stringify (zip prevKeys (objects st)) \<longrightarrow>
      objects (setObjects prevKeys newObjects st) = map snd newObjects \<and>
      objectsIdentity (setObjects prevKeys newObjects st) = Suc (objectsIdentity st))"
  by (auto simp: setObjects_def)

lemma stringify_rect0:
  "stringify [(all_keys, rect0)] \<noteq> stringify [(rev all_keys, rect0)]"
  by (simp add: stringify_def stringify_object_def all_keys_def field_json_def
      List.map_filter_simps example_defs)

theorem snapshot_with_equal_text_is_discarded_witness:
  "stringify [(all_keys, rect0), (all_keys, circle0)]
     = stringify (zip [all_keys, all_keys] (objects (client [rect0, circle0]))) \<and>
   setObjects [all_keys, all_keys] [(all_keys, rect0), (all_keys, circle0)]
     (client [rect0, circle0]) = client [rect0, circle0] \<and>
   \<not> isExecutingCommand (client [rect0]) \<and>
   stringify [(rev all_keys, rect0)] \<noteq> stringify (zip [all_keys] (objects (client [rect0]))) \<and>
   objects (setObjects [all_keys] [(rev all_keys, rect0)] (client [rect0])) = [rect0] \<and>
   objectsIdentity (setObjects [all_keys] [(rev all_keys, rect0)] (client [rect0]))
     = Suc (objectsIdentity (client [rect0]))"
proof -
  have a: "stringify [(all_keys, rect0), (all_keys, circle0)]
     = stringify (zip [all_keys, all_keys] (objects (client [rect0, circle0])))"
    by (simp add: client_def)
  have b: "\<not> isExecutingCommand (client [rect0])" by (simp add: client_def)
  have c: "stringify [(rev all_keys, rect0)] \<noteq> stringify (zip [all_keys] (objects (client [rect0])))"
    using stringify_rect0 by (simp add: client_def)
  show ?thesis
    using snapshot_with_equal_text_is_discarded[of "[(all_keys, rect0), (all_keys, circle0)]"
        "[all_keys, all_keys]" "client [rect0, circle0]"]
      snapshot_with_equal_text_is_discarded[of "[(rev all_keys, rect0)]" "[all_keys]"
        "client [rect0]"] a b c
    by simp
qed

text \<open>
  Claim C8, as stated, fails.  The client holds the rectangle, with its keys in the order
  of the record.  A snapshot that holds the same rectangle, field for field, with its keys
  in the reverse order, has another text: it is not discarded, and the cell is given a new
  array with the same content.
\<close>

theorem reordered_keys_replace_the_list:
  "map snd [(rev all_keys, rect0)] = objects (client [rect0]) \<and>
   objectsIdentity (client [rect0]) = 0 \<and>
   objects (setObjects [all_keys] [(rev all_keys, rect0)] (client [rect0])) = [rect0] \<and>
   objectsIdentity (setObjects [all_keys] [(rev all_keys, rect0)] (client [rect0])) = 1 \<and>
   setObjects [all_keys] [(rev all_keys, rect0)] (client [rect0]) \<noteq> client [rect0]"
proof -
  have c: "stringify (zip [all_keys] (objects (client [rect0]))) \<noteq> stringify [(rev all_keys, rect0)]"
    using stringify_rect0 by (simp add: client_def)
  have i: "objectsIdentity (client [rect0]) = 0" by (simp add: client_def)
  have q: "\<not> isExecutingCommand (client [rect0])" "\<not> renderPending (client [rect0])"
    by (simp_all add: client_def)
  have o: "objects (setObjects [all_keys] [(rev all_keys, rect0)] (client [rect0])) = [rect0]"
    using c q by (simp add: setObjects_def)
  have n: "objectsIdentity (setObjects [all_keys] [(rev all_keys, rect0)] (client [rect0])) = 1"
    using c q i by (simp add: setObjects_def)
  have "setObjects [all_keys] [(rev all_keys, rect0)] (client [rect0]) \<noteq> client [rect0]"
  proof
    assume "setObjects [all_keys] [(rev all_keys, rect0)] (client [rect0]) = client [rect0]"
    then have "objectsIdentity (setObjects [all_keys] [(rev all_keys, rect0)] (client [rect0]))
        = objectsIdentity (client [rect0])" by simp
    then show False using n i by simp
  qed
  then show ?thesis using o n i by (simp add: client_def)
qed

lemma rejected_in_the_render:
  "(length (r_selectedIds r) < 2 \<longrightarrow> createGroup r newId now st = (st, None)) \<and>
   (find_id i (r_objects r) = None \<longrightarrow>
      updateObject r i updates now st = (st, None) \<and> deleteObject r i now st = (st, None))"
  by (simp add: createGroup_def updateObject_def deleteObject_def split: option.splits)

text \<open>
  Claim C9, at inputs where the code departs from it.  \<open>updateObject\<close> and \<open>deleteObject\<close>
  look the id up in the \<open>objects\<close> of the render they were made in, and \<open>createGroup\<close>
  counts the \<open>selectedIds\<close> of that render, where \<open>updateInFirestore\<close> reads the ref that the
  source keeps for synchronous access.  A caller that holds the functions of one render
  deletes the rectangle and, after that write has resolved, calls \<open>updateObject\<close> and
  \<open>deleteObject\<close> for it again: no object of the list has the id, and yet each call
  constructs a command and pushes it on the history, and the second delete issues a
  store call.  Likewise \<open>createGroup\<close>, made while two ids were selected and called after
  the selection was cleared, pushes a command and issues a store call.
\<close>

theorem stale_render_passes_the_checks:
  "find_id ''r'' (objects rect_deleted) = None \<and>
   find_id ''r'' (objectsRef rect_deleted) = None \<and>
   isExecutingCommand rect_deleted = False \<and>
   length (history (commandHistory rect_deleted)) = 1 \<and>
   firestoreCalls rect_deleted = [DeleteDoc ''r''] \<and>
   updateObject (render (client [rect0, circle0])) ''r'' (width_to 150) (Fin 2002) rect_deleted
     = (executeCommand (Fin 2002)
          (UpdateObjectCommand ''r'' (width_to 150) (previousState_of (width_to 150) rect0))
          rect_deleted,
        Some (AwaitCommit False)) \<and>
   history (commandHistory
      (fst (updateObject (render (client [rect0, circle0])) ''r'' (width_to 150) (Fin 2002)
              rect_deleted)))
     = [DeleteObjectCommand rect0,
        UpdateObjectCommand ''r'' (width_to 150) (previousState_of (width_to 150) rect0)] \<and>
   deleteObject (render (client [rect0, circle0])) ''r'' (Fin 2002) rect_deleted
     = (executeCommand (Fin 2002) (DeleteObjectCommand rect0) rect_deleted,
        Some (AwaitCommit False)) \<and>
   history (commandHistory
      (fst (deleteObject (render (client [rect0, circle0])) ''r'' (Fin 2002) rect_deleted)))
     = [DeleteObjectCommand rect0, DeleteObjectCommand rect0] \<and>
   firestoreCalls
      (fst (deleteObject (render (client [rect0, circle0])) ''r'' (Fin 2002) rect_deleted))
     = [DeleteDoc ''r'', DeleteDoc ''r''] \<and>
   length (selectedIds (clearSelection (rendered (selectMultiple [''r'', ''c''] (client [rect0, circle0])))))
     < 2 \<and>
   snd (createGroup (render (selectMultiple [''r'', ''c''] (client [rect0, circle0])))
          ''g'' (Fin 2002)
          (clearSelection (rendered (selectMultiple [''r'', ''c''] (client [rect0, circle0])))))
     = Some (AwaitCommit True) \<and>
   history (commandHistory
      (fst (createGroup (render (selectMultiple [''r'', ''c''] (client [rect0, circle0])))
              ''g'' (Fin 2002)
              (clearSelection (rendered (selectMultiple [''r'', ''c''] (client [rect0, circle0])))))))
     = [CreateGroupCommand
          (groupObject_of ''u1'' [''r'', ''c''] [rect0, circle0] ''g'' (Fin 2002))
          [''r'', ''c'']] \<and>
   firestoreCalls
      (fst (createGroup (render (selectMultiple [''r'', ''c''] (client [rect0, circle0])))
              ''g'' (Fin 2002)
              (clearSelection (rendered (selectMultiple [''r'', ''c''] (client [rect0, circle0]))))))
     = [SetDoc ''g'' (groupObject_of ''u1'' [''r'', ''c''] [rect0, circle0] ''g'' (Fin 2002))]"
proof -
  let ?r = "render (client [rect0, circle0])"
  let ?sel = "rendered (selectMultiple [''r'', ''c''] (client [rect0, circle0]))"
  let ?cl = "render (selectMultiple [''r'', ''c''] (client [rect0, circle0]))"
  have ids: "o_id rect0 = ''r''" "o_id circle0 = ''c''" by (simp_all add: example_defs)
  have a: "find_id ''r'' (objects rect_deleted) = None"
    "find_id ''r'' (objectsRef rect_deleted) = None"
    "isExecutingCommand rect_deleted = False"
    "length (history (commandHistory rect_deleted)) = 1"
    "firestoreCalls rect_deleted = [DeleteDoc ''r'']"
    by (simp_all add: rect_deleted_eq client_def find_id_def ids)
  have r: "r_currentUser ?r = Some ''u1''" "find_id ''r'' (r_objects ?r) = Some rect0"
    "r_selectedId ?r = None"
    by (simp_all add: render_def client_def find_id_def ids)
  have u: "updateObject ?r ''r'' (width_to 150) (Fin 2002) rect_deleted
     = (executeCommand (Fin 2002)
          (UpdateObjectCommand ''r'' (width_to 150) (previousState_of (width_to 150) rect0))
          rect_deleted,
        Some (AwaitCommit False))"
    using a(3) r by (simp add: updateObject_def Let_def)
  have d: "deleteObject ?r ''r'' (Fin 2002) rect_deleted
     = (executeCommand (Fin 2002) (DeleteObjectCommand rect0) rect_deleted,
        Some (AwaitCommit False))"
    using a(3) r by (simp add: deleteObject_def Let_def)
  have h: "commandHistory rect_deleted = \<lparr>history = [DeleteObjectCommand rect0], currentIndex = 0\<rparr>"
    by (simp add: rect_deleted_eq)
  have hu: "history (commandHistory (fst (updateObject ?r ''r'' (width_to 150) (Fin 2002) rect_deleted)))
     = [DeleteObjectCommand rect0,
        UpdateObjectCommand ''r'' (width_to 150) (previousState_of (width_to 150) rect0)]"
    unfolding u by (simp add: executeCommand_def h history_defs)
  have hd: "history (commandHistory (fst (deleteObject ?r ''r'' (Fin 2002) rect_deleted)))
     = [DeleteObjectCommand rect0, DeleteObjectCommand rect0]"
    unfolding d by (simp add: executeCommand_def h history_defs)
  have fd: "firestoreCalls (fst (deleteObject ?r ''r'' (Fin 2002) rect_deleted))
     = [DeleteDoc ''r'', DeleteDoc ''r'']"
    unfolding d
    by (simp add: executeCommand_def a(5) ids removeFromFirestore_def call_store_def
        updateObjectsState_def)
  have s: "length (selectedIds (clearSelection ?sel)) < 2"
    by (simp add: clearSelection_def)
  have rs: "r_currentUser ?cl = Some ''u1''" "r_selectedIds ?cl = [''r'', ''c'']"
    "r_objects ?cl = [rect0, circle0]"
    by (simp_all add: render_def rendered_def selectMultiple_def client_def)
  have g: "createGroup ?cl ''g'' (Fin 2002) (clearSelection ?sel)
     = (executeCommand (Fin 2002)
          (CreateGroupCommand
             (groupObject_of ''u1'' [''r'', ''c''] [rect0, circle0] ''g'' (Fin 2002))
             [''r'', ''c''])
          (clearSelection ?sel), Some (AwaitCommit True))"
    by (simp add: createGroup_def rs Let_def ids)
  have hs: "commandHistory (clearSelection ?sel) = emptyHistory"
    "firestoreCalls (clearSelection ?sel) = []"
    by (simp_all add: clearSelection_def rendered_def selectMultiple_def client_def)
  have hg: "history (commandHistory (fst (createGroup ?cl ''g'' (Fin 2002) (clearSelection ?sel))))
     = [CreateGroupCommand
          (groupObject_of ''u1'' [''r'', ''c''] [rect0, circle0] ''g'' (Fin 2002))
          [''r'', ''c'']]"
    unfolding g by (simp add: executeCommand_def hs history_defs)
  have og: "o_id (groupObject_of ''u1'' [''r'', ''c''] [rect0, circle0] ''g'' (Fin 2002)) = ''g''"
    by (simp add: groupObject_of_def Let_def split: prod.splits)
  have fg: "firestoreCalls (fst (createGroup ?cl ''g'' (Fin 2002) (clearSelection ?sel)))
     = [SetDoc ''g'' (groupObject_of ''u1'' [''r'', ''c''] [rect0, circle0] ''g'' (Fin 2002))]"
    unfolding g
    by (simp add: executeCommand_def hs og addToFirestore_def call_store_def
        updateObjectsState_def split: option.splits)
  show ?thesis
    using a u hu d hd fd s g hg fg by simp
qed

text \<open>
  Claim C2, at an input where the code departs from it.  The client widens the rectangle
  from 100 to 150 with \<open>updateObject\<close>; the intent is suspended on its store call and the
  local width is 150.  \<open>isExecutingCommandRef\<close> is set only by \<open>undo\<close> and \<open>redo\<close>, so it is
  false here, and a snapshot that still carries width 100 is not discarded: it replaces
  the object list, and the local width is 100 again.
\<close>

theorem stale_snapshot_overwrites_inflight_commit:
  "snd (updateObject (render (client [rect0, circle0])) ''r'' (width_to 150) (Fin 2000)
          (client [rect0, circle0]))
     = Some (AwaitCommit False) \<and>
   map o_width (objects resizing) = [Fin 150, Fin 100] \<and>
   isExecutingCommand resizing = False \<and>
   objects (setObjects [all_keys, all_keys] [(all_keys, rect0), (all_keys, circle0)] resizing)
     = [rect0, circle0] \<and>
   map o_width
     (objects (setObjects [all_keys, all_keys] [(all_keys, rect0), (all_keys, circle0)] resizing))
     = [Fin 100, Fin 100]"
proof -
  have w: "map o_width (objects resizing) = [Fin 150, Fin 100]"
    by (simp add: resizing_eq example_defs)
  have g: "isExecutingCommand resizing = False"
    by (simp add: resizing_eq example_defs)
  have d: "stringify (zip [all_keys, all_keys] (objects resizing))
             \<noteq> stringify [(all_keys, rect0), (all_keys, circle0)]"
    by (simp add: resizing_eq stringify_def stringify_object_def all_keys_def field_json_def
        List.map_filter_simps example_defs)
  have s: "objects (setObjects [all_keys, all_keys] [(all_keys, rect0), (all_keys, circle0)] resizing)
             = [rect0, circle0]"
    using g d by (simp add: setObjects_def)
  have "map o_width [rect0, circle0] = [Fin 100, Fin 100]"
    by (simp add: example_defs)
  then show ?thesis using snd_updateObject_example w g s by simp
qed

text \<open>
  Claim C3, at two inputs where the code departs from it.  While the \<open>updateObject\<close> above
  is suspended, \<open>addObject\<close> is not rejected: it pushes a second command and adds its
  object.  And while an \<open>undo\<close> is suspended, with the flag set, \<open>createGroup\<close>, which does
  not read the flag, is not rejected either: it pushes a command and adds the group.
\<close>

theorem intents_accepted_while_in_flight:
  "snd (updateObject (render (client [rect0, circle0])) ''r'' (width_to 150) (Fin 2000)
          (client [rect0, circle0]))
     = Some (AwaitCommit False) \<and>
   length (history (commandHistory resizing)) = 1 \<and>
   snd (addObject (render resizing) line0 ''n'' (Fin 2001) resizing) = Some (AwaitCommit False) \<and>
   length (history (commandHistory
      (fst (addObject (render resizing) line0 ''n'' (Fin 2001) resizing)))) = 2 \<and>
   map o_id (objects (fst (addObject (render resizing) line0 ''n'' (Fin 2001) resizing)))
     = [''r'', ''c'', ''n''] \<and>
   snd (undo (Fin 2002) line_added) = Some (AwaitUndo []) \<and>
   isExecutingCommand undoing \<and>
   length (history (commandHistory undoing)) = 1 \<and>
   snd (createGroup (render undoing) ''g'' (Fin 2003) undoing) = Some (AwaitCommit True) \<and>
   length (history (commandHistory
      (fst (createGroup (render undoing) ''g'' (Fin 2003) undoing)))) = 2 \<and>
   map o_id (objects (fst (createGroup (render undoing) ''g'' (Fin 2003) undoing)))
     = [''r'', ''c'', ''g'']"
proof -
  have a: "length (history (commandHistory resizing)) = 1"
    by (simp add: resizing_eq)
  have b: "snd (addObject (render resizing) line0 ''n'' (Fin 2001) resizing)
             = Some (AwaitCommit False)"
    by (simp add: resizing_eq addObject_def render_def Let_def example_defs)
  have c: "length (history (commandHistory
             (fst (addObject (render resizing) line0 ''n'' (Fin 2001) resizing)))) = 2"
    by (simp add: resizing_eq addObject_def render_def commandHistory_executeCommand Let_def
        history_defs example_defs)
  have d: "map o_id (objects (fst (addObject (render resizing) line0 ''n'' (Fin 2001) resizing)))
             = [''r'', ''c'', ''n'']"
    by (simp add: resizing_eq addObject_def executeCommand_def Let_def add_updater_def
        find_id_def newObject_of_def state_defs example_defs)
  have e: "snd (undo (Fin 2002) line_added) = Some (AwaitUndo [])"
    by (simp add: undo_line_added)
  have f: "isExecutingCommand undoing" "length (history (commandHistory undoing)) = 1"
    by (simp_all add: undoing_eq)
  have g: "snd (createGroup (render undoing) ''g'' (Fin 2003) undoing) = Some (AwaitCommit True)"
    by (simp add: undoing_eq createGroup_def render_def Let_def example_defs)
  have h: "length (history (commandHistory
             (fst (createGroup (render undoing) ''g'' (Fin 2003) undoing)))) = 2"
    by (simp add: undoing_eq createGroup_def render_def commandHistory_executeCommand Let_def
        history_defs example_defs)
  have i: "map o_id (objects (fst (createGroup (render undoing) ''g'' (Fin 2003) undoing)))
             = [''r'', ''c'', ''g'']"
    by (simp add: undoing_eq createGroup_def executeCommand_def Let_def add_updater_def
        find_id_def groupObject_of_def state_defs example_defs split: prod.splits)
  show ?thesis
    using snd_updateObject_example a b c d e f g h i by simp
qed

text \<open>
  Claim C10.  \<open>executeCommand\<close> has changed the history before it awaits \<open>execute()\<close>, and
  nothing is taken back when that rejects.  From a history whose index is between \<open>-1\<close>
  and the last position, a commit whose \<open>execute()\<close> rejects leaves the same history as one
  that resolves: \<open>canUndo()\<close> is true, and the entry \<open>undo()\<close> would read is the failed
  command.  The same holds for \<open>addObject\<close> after its \<open>catch\<close> has run.
\<close>

theorem failed_commit_stays_in_history:
  "(index_inv h \<longrightarrow>
      canUndo (do_call (Commit c False) h) \<and>
      undo_target (do_call (Commit c False) h) = Some c \<and>
      do_call (Commit c False) h = do_call (Commit c True) h) \<and>
   (r_currentUser r \<noteq> None \<and> \<not> isExecutingCommand st \<and> index_inv (commandHistory st) \<longrightarrow>
      snd (addObject r object newId now st) = Some (AwaitCommit False) \<and>
      canUndo (commandHistory (fst (settle (AwaitCommit False) False later
                                       (fst (addObject r object newId now st))))) \<and>
      undo_target (commandHistory (fst (settle (AwaitCommit False) False later
                                          (fst (addObject r object newId now st)))))
        = Some (AddObjectCommand (newObject_of object newId now)))"
proof (intro conjI impI)
  assume i: "index_inv h"
  note t = executeCommand_history_tip[OF i, of c]
  let ?h' = "executeCommand_history c h"
  have "nat (currentIndex ?h') = length (history ?h') - 1"
    using t(1,2) by simp
  then have "history ?h' ! nat (currentIndex ?h') = c"
    using t(3,4) by (simp add: last_conv_nth)
  then have a: "at_index (history ?h') (currentIndex ?h') = Some c"
    using t(1,2) by (simp add: at_index_def)
  show "canUndo (do_call (Commit c False) h)" using t(2) by (simp add: canUndo_def)
  then show "undo_target (do_call (Commit c False) h) = Some c"
    using a by (simp add: undo_target_def)
  show "do_call (Commit c False) h = do_call (Commit c True) h" by simp
next
  assume a: "r_currentUser r \<noteq> None \<and> \<not> isExecutingCommand st \<and> index_inv (commandHistory st)"
  let ?c = "AddObjectCommand (newObject_of object newId now)"
  have add: "addObject r object newId now st = (executeCommand now ?c st, Some (AwaitCommit False))"
    using a by (simp add: addObject_def Let_def)
  show "snd (addObject r object newId now st) = Some (AwaitCommit False)"
    using add by simp
  have h: "commandHistory (fst (settle (AwaitCommit False) False later
                                       (fst (addObject r object newId now st))))
        = executeCommand_history ?c (commandHistory st)"
    unfolding add by (simp add: executeCommand_def)
  have i: "index_inv (commandHistory st)" using a by blast
  note t = executeCommand_history_tip[OF i, of ?c]
  let ?h' = "executeCommand_history ?c (commandHistory st)"
  have "nat (currentIndex ?h') = length (history ?h') - 1"
    using t(1,2) by simp
  then have "history ?h' ! nat (currentIndex ?h') = ?c"
    using t(3,4) by (simp add: last_conv_nth)
  then have at: "at_index (history ?h') (currentIndex ?h') = Some ?c"
    using t(1,2) by (simp add: at_index_def)
  show "canUndo (commandHistory (fst (settle (AwaitCommit False) False later
                                       (fst (addObject r object newId now st)))))"
    unfolding h using t(2) by (simp add: canUndo_def)
  then show "undo_target (commandHistory (fst (settle (AwaitCommit False) False later
                                          (fst (addObject r object newId now st)))))
        = Some ?c"
    unfolding h using at by (simp add: undo_target_def)
qed

theorem failed_commit_stays_in_history_witness:
  "index_inv \<lparr>history = [1, 2, 3::nat], currentIndex = 1\<rparr> \<and>
   undo_target (do_call (Commit 9 False) \<lparr>history = [1, 2, 3::nat], currentIndex = 1\<rparr>) = Some 9 \<and>
   r_currentUser (render (client [rect0, circle0])) \<noteq> None \<and>
   \<not> isExecutingCommand (client [rect0, circle0]) \<and>
   index_inv (commandHistory (client [rect0, circle0])) \<and>
   undo_target (commandHistory (fst (settle (AwaitCommit False) False (Fin 2001)
                                       (fst (addObject (render (client [rect0, circle0]))
                                               line0 ''n'' (Fin 2000)
                                               (client [rect0, circle0]))))))
     = Some (AddObjectCommand (newObject_of line0 ''n'' (Fin 2000)))"
proof -
  let ?h = "\<lparr>history = [1, 2, 3::nat], currentIndex = 1\<rparr>"
  let ?st = "client [rect0, circle0]"
  have a: "index_inv ?h" by (simp add: index_inv_def)
  have b: "r_currentUser (render ?st) \<noteq> None \<and> \<not> isExecutingCommand ?st \<and>
           index_inv (commandHistory ?st)"
    by (simp add: render_def client_def index_inv_def emptyHistory_def)
  show ?thesis
    using failed_commit_stays_in_history[of ?h 9 "render ?st" ?st line0 "''n''" "Fin 2000"
        "Fin 2001"] a b
    by blast
qed

end
